theory Spec2Isabelle
  imports Main "HOL-Library.Multiset" "HOL-Library.Char_ord" "HOL-Library.List_Lexorder"
    "HOL-Library.Product_Lexorder"
begin

section \<open>Go library functions used by the encoder\<close>

text \<open>
  Go strings are byte sequences; \<open>string\<close> (a list of 8-bit characters) models them, and
  \<open><\<close> on strings (lexicographic, characters compared by their byte value) is Go's
  \<open><\<close> on strings.
\<close>

text \<open>\<open>strconv\<close>/\<open>fmt.Sprint\<close> on an integer: its decimal digits, with a leading minus sign.\<close>

definition digit_char :: "nat \<Rightarrow> char" where
  "digit_char d = ''0123456789'' ! d"

fun digits :: "nat \<Rightarrow> string" where
  "digits n = (if n < 10 then [digit_char n] else digits (n div 10) @ [digit_char (n mod 10)])"

declare digits.simps [simp del]

definition show_int :: "int \<Rightarrow> string" where
  "show_int i = (if i < 0 then CHR ''-'' # digits (nat (- i)) else digits (nat i))"

text \<open>
  \<open>base64.StdEncoding.EncodeToString\<close>: the standard alphabet, padded with \<open>=\<close>. Bytes
  are numbers below 256.
\<close>

definition b64_alphabet :: string where
  "b64_alphabet = ''ABCDEFGHIJKLMNOPQRSTUVWXYZabcdefghijklmnopqrstuvwxyz0123456789+/''"

definition b64_char :: "nat \<Rightarrow> char" where
  "b64_char n = b64_alphabet ! (n mod 64)"

fun EncodeToString :: "nat list \<Rightarrow> string" where
  "EncodeToString [] = []"
| "EncodeToString [a] =
     [b64_char (a div 4), b64_char ((a mod 4) * 16), CHR ''='', CHR ''='']"
| "EncodeToString [a, b] =
     [b64_char (a div 4), b64_char ((a mod 4) * 16 + b div 16),
      b64_char ((b mod 16) * 4), CHR ''='']"
| "EncodeToString (a # b # c # rest) =
     [b64_char (a div 4), b64_char ((a mod 4) * 16 + b div 16),
      b64_char ((b mod 16) * 4 + c div 64), b64_char (c mod 64)] @ EncodeToString rest"

text \<open>
  \<open>protoreflect.FullName.Parent\<close>: the name without its last component, the empty
  name when there is no dot.
\<close>

definition Parent :: "string \<Rightarrow> string" where
  "Parent n = (if CHR ''.'' \<in> set n
               then rev (tl (dropWhile (\<lambda>c. c \<noteq> CHR ''.'') (rev n))) else [])"

section \<open>The reflection model: descriptors\<close>

datatype Kind =
    BoolKind | EnumKind | Int32Kind | Sint32Kind | Uint32Kind | Int64Kind | Sint64Kind
  | Uint64Kind | Sfixed32Kind | Fixed32Kind | FloatKind | Sfixed64Kind | Fixed64Kind
  | DoubleKind | StringKind | BytesKind | MessageKind | GroupKind
  | OtherKind nat \<comment> \<open>\<open>Kind\<close> is an \<open>int8\<close>: any number no constant names\<close>

datatype Cardinality = Optional | Required | Repeated

datatype Syntax = Proto2 | Proto3

text \<open>A float is carried as written by the caller: the bits of a float32 or of a float64.\<close>

datatype Float = Float32 nat | Float64 nat

text \<open>The scalar payloads of a \<open>protoreflect.Value\<close>; integers by their numeric value.\<close>

datatype Scalar =
    SBool bool | SInt32 int | SInt64 int | SUint32 nat | SUint64 nat
  | SFloat32 nat | SFloat64 nat | SString string | SBytes "nat list" | SEnum int

text \<open>\<open>EnumDescriptor\<close>: the full name and the declared values (name, number).\<close>

record EnumDescriptor =
  enum_FullName :: string
  enum_Values :: "(string \<times> int) list"

text \<open>\<open>fd.Enum().Values().ByNumber(n)\<close>: the first declared value with the number, or nil.\<close>

definition ByNumber :: "EnumDescriptor \<Rightarrow> int \<Rightarrow> string option" where
  "ByNumber ed n = map_option fst (find (\<lambda>v. snd v = n) (enum_Values ed))"

text \<open>
  \<open>FieldDescriptor\<close> and \<open>MessageDescriptor\<close>, one selector for each method the encoder
  calls. \<open>fd_Default\<close> is \<open>fd.Default()\<close>, \<open>None\<close> for the invalid value.
  \<open>fd_ContainingOneof\<close> is the name of the oneof, \<open>None\<close> for nil.
  \<open>fd_IsMessageSetExtension\<close> and \<open>md_IsMessageSet\<close> are the verdicts of
  \<open>messageset.IsMessageSetExtension\<close> and \<open>messageset.IsMessageSet\<close>.
\<close>

datatype FieldDescriptor = FieldDescriptor
  (fd_Name: string)
  (fd_FullName: string)
  (fd_JSONName: string)
  (fd_Kind: Kind)
  (fd_Cardinality: Cardinality)
  (fd_Syntax: Syntax)
  (fd_Default: "Scalar option")
  (fd_ContainingOneof: "string option")
  (fd_IsExtension: bool)
  (fd_IsMessageSetExtension: bool)
  (fd_IsMap: bool)
  (fd_MapKey: "FieldDescriptor option")
  (fd_MapValue: "FieldDescriptor option")
  (fd_Enum: "EnumDescriptor option")
  (fd_Message: "MessageDescriptor option")
and MessageDescriptor = MessageDescriptor
  (md_Name: string)
  (md_FullName: string)
  (md_IsMessageSet: bool)
  (md_Fields: "FieldDescriptor list")

text \<open>
  \<open>fd.IsList()\<close>: by protoreflect's contract, the cardinality is repeated and the field
  is not a map.
\<close>

definition fd_IsList :: "FieldDescriptor \<Rightarrow> bool" where
  "fd_IsList fd = (fd_Cardinality fd = Repeated \<and> \<not> fd_IsMap fd)"

section \<open>The reflection model: values and messages\<close>

text \<open>
  \<open>protoreflect.Value\<close> is a tagged union; its zero value \<open>Value{}\<close> is the invalid
  value. A map is the list of its entries in the order \<open>Range\<close> visits them. A message
  is its descriptor and its populated fields (declared and extension) in the order
  \<open>Range\<close> visits them; neither order is promised by Go.
\<close>

datatype Value =
    VInvalid
  | VScalar Scalar
  | VMessage Message
  | VList "Value list"
  | VMap "(Scalar \<times> Value) list"
and Message = Message (Descriptor: MessageDescriptor) (Range: "(FieldDescriptor \<times> Value) list")

subsection \<open>Errors, panics and results\<close>

datatype Error =
    errors_New string
  | WriterError string
  | IndentError
  | RequiredNotSet
  | CustomTypeError string

datatype Fault = Err Error | Panic

subsection \<open>Accessors of a Value\<close>

definition IsValid :: "Value \<Rightarrow> bool" where
  "IsValid v = (v \<noteq> VInvalid)"

fun val_Bool :: "Value \<Rightarrow> bool option" where
  "val_Bool (VScalar (SBool b)) = Some b"
| "val_Bool _ = None"

fun val_Int :: "Value \<Rightarrow> int option" where
  "val_Int (VScalar (SInt32 i)) = Some i"
| "val_Int (VScalar (SInt64 i)) = Some i"
| "val_Int _ = None"

fun val_Uint :: "Value \<Rightarrow> nat option" where
  "val_Uint (VScalar (SUint32 n)) = Some n"
| "val_Uint (VScalar (SUint64 n)) = Some n"
| "val_Uint _ = None"

fun val_Float :: "Value \<Rightarrow> Float option" where
  "val_Float (VScalar (SFloat32 b)) = Some (Float32 b)"
| "val_Float (VScalar (SFloat64 b)) = Some (Float64 b)"
| "val_Float _ = None"

fun val_Bytes :: "Value \<Rightarrow> nat list option" where
  "val_Bytes (VScalar (SBytes bs)) = Some bs"
| "val_Bytes _ = None"

fun val_Enum :: "Value \<Rightarrow> int option" where
  "val_Enum (VScalar (SEnum n)) = Some n"
| "val_Enum _ = None"

fun val_Message :: "Value \<Rightarrow> Message option" where
  "val_Message (VMessage m) = Some m"
| "val_Message _ = None"

fun val_List :: "Value \<Rightarrow> Value list option" where
  "val_List (VList xs) = Some xs"
| "val_List _ = None"

fun val_Map :: "Value \<Rightarrow> (Scalar \<times> Value) list option" where
  "val_Map (VMap es) = Some es"
| "val_Map _ = None"

fun val_String :: "(Value \<Rightarrow> string) \<Rightarrow> Value \<Rightarrow> string" where
  "val_String sprint (VScalar (SString s)) = s"
| "val_String sprint (VScalar (SBool b)) = (if b then ''true'' else ''false'')"
| "val_String sprint (VScalar (SInt32 i)) = show_int i"
| "val_String sprint (VScalar (SInt64 i)) = show_int i"
| "val_String sprint (VScalar (SUint32 n)) = show_int (int n)"
| "val_String sprint (VScalar (SUint64 n)) = show_int (int n)"
| "val_String sprint (VScalar (SEnum n)) = show_int n"
| "val_String sprint VInvalid = ''<nil>''"
| "val_String sprint v = sprint v"

subsection \<open>Presence and value of a field\<close>

text \<open>
  Modelled from the spec: the Reflection capability \<open>has(field)\<close>, \<open>get(field)\<close> of a
  message (package \<open>protoreflect\<close>, whose code is not among the sources). A field is
  populated when \<open>Range\<close> visits it. For an unpopulated field \<open>Get\<close> returns an empty
  list, an empty map, an empty message, or the scalar's default.
\<close>

definition Has :: "Message \<Rightarrow> FieldDescriptor \<Rightarrow> bool" where
  "Has m fd = (map_of (Range m) fd \<noteq> None)"

definition unset_value :: "FieldDescriptor \<Rightarrow> Value" where
  "unset_value fd =
     (if fd_IsList fd then VList []
      else if fd_IsMap fd then VMap []
      else case fd_Message fd of
             Some md \<Rightarrow> VMessage (Message md [])
           | None \<Rightarrow> (case fd_Default fd of Some d \<Rightarrow> VScalar d | None \<Rightarrow> VInvalid))"

definition Get :: "Message \<Rightarrow> FieldDescriptor \<Rightarrow> Value" where
  "Get m fd = (case map_of (Range m) fd of Some v \<Rightarrow> v | None \<Rightarrow> unset_value fd)"

section \<open>The Token Writer\<close>

text \<open>
  Modelled from the spec: the Token Writer (package \<open>internal/encoding/json\<close>, whose
  code is not among the sources) is an append-only sink with a token API. The encoder's
  state is the indent unit and the sequence of tokens written so far; the byte buffer it
  hands out is determined by that sequence, and is represented by it. \<open>WriteName\<close> and
  \<open>WriteString\<close> report an error for a string the writer rejects; which strings those
  are is a parameter (\<open>accepts\<close>). The token of a rejected string is in the sequence
  all the same: one caller ignores the error and goes on writing.
\<close>

datatype Token =
    TStartObject | TEndObject | TStartArray | TEndArray
  | TName string | TNull | TBool bool | TInt int | TUint nat
  | TFloat Float nat | TString string

record Encoder =
  indent :: string
  out :: "Token list"

definition emit :: "Token \<Rightarrow> Encoder \<Rightarrow> Encoder" where
  "emit t enc = enc\<lparr>out := out enc @ [t]\<rparr>"

text \<open>
  \<open>json.NewEncoder\<close>: by the comment on \<open>MarshalOptions.Indent\<close>, the indent can only be
  composed of space or tab characters.
\<close>

definition NewEncoder :: "string \<Rightarrow> Error + Encoder" where
  "NewEncoder ind =
     (if \<forall>c \<in> set ind. c = CHR '' '' \<or> c = CHR 0x09
      then Inr \<lparr>indent = ind, out = []\<rparr> else Inl IndentError)"

definition StartObject :: "Encoder \<Rightarrow> Encoder" where "StartObject = emit TStartObject"

definition EndObject :: "Encoder \<Rightarrow> Encoder" where "EndObject = emit TEndObject"

definition StartArray :: "Encoder \<Rightarrow> Encoder" where "StartArray = emit TStartArray"

definition EndArray :: "Encoder \<Rightarrow> Encoder" where "EndArray = emit TEndArray"

definition WriteNull :: "Encoder \<Rightarrow> Encoder" where "WriteNull = emit TNull"

definition WriteBool :: "bool \<Rightarrow> Encoder \<Rightarrow> Encoder" where "WriteBool b = emit (TBool b)"

definition WriteInt :: "int \<Rightarrow> Encoder \<Rightarrow> Encoder" where "WriteInt i = emit (TInt i)"

definition WriteUint :: "nat \<Rightarrow> Encoder \<Rightarrow> Encoder" where "WriteUint n = emit (TUint n)"

definition WriteFloat :: "Float \<Rightarrow> nat \<Rightarrow> Encoder \<Rightarrow> Encoder" where
  "WriteFloat f bitSize = emit (TFloat f bitSize)"

definition WriteName :: "(string \<Rightarrow> bool) \<Rightarrow> string \<Rightarrow> Encoder \<Rightarrow> Encoder \<times> Error option" where
  "WriteName acc s enc = (emit (TName s) enc, if acc s then None else Some (WriterError s))"

definition WriteString :: "(string \<Rightarrow> bool) \<Rightarrow> string \<Rightarrow> Encoder \<Rightarrow> Encoder \<times> Error option" where
  "WriteString acc s enc = (emit (TString s) enc, if acc s then None else Some (WriterError s))"

definition Bytes :: "Encoder \<Rightarrow> Token list" where
  "Bytes enc = out enc"

text \<open>\<open>if err := ...; err != nil { return err }\<close> after a call that updates the encoder.\<close>

definition checked :: "Encoder \<times> Error option \<Rightarrow> Fault + Encoder" where
  "checked r = (case snd r of None \<Rightarrow> Inr (fst r) | Some e \<Rightarrow> Inl (Err e))"

section \<open>The encoder\<close>

record MarshalOptions =
  AllowPartial :: bool
  UseProtoNames :: bool
  UseEnumNumbers :: bool
  EmitUnpopulated :: bool
  Indent :: string

text \<open>
  What the encoder uses and \<open>encode.go\<close> does not define: the build flag
  \<open>flags.ProtoLegacy\<close>, the strings the Token Writer accepts, \<open>fmt.Sprint\<close> on the
  values \<open>Value.String\<close> hands to it (floats, bytes, messages, lists and maps), and
  the custom-type hook (\<open>isCustomType\<close>, \<open>marshalCustomType\<close>). The field \<open>Resolver\<close> of
  \<open>MarshalOptions\<close> is read by that hook only and is part of it here.
\<close>

record Externals =
  ProtoLegacy :: bool
  accepts :: "string \<Rightarrow> bool"
  Sprint :: "Value \<Rightarrow> string"
  isCustomType :: "string \<Rightarrow> bool"
  marshalCustomType :: "MarshalOptions \<Rightarrow> Message \<Rightarrow> Encoder \<Rightarrow> Fault + Encoder"

subsection \<open>Sorting\<close>

text \<open>
  \<open>sort.Slice(values, less)\<close>, as insertion under \<open>less\<close>. Go's \<open>sort.Slice\<close> is not
  stable: where \<open>less\<close> leaves two elements unordered, their order in Go's result is not
  specified, and this function gives one of the permitted results. A \<open>less\<close> that
  panics makes the sort panic; a slice of fewer than two elements is never compared.
\<close>

fun insert_by :: "('a \<Rightarrow> 'a \<Rightarrow> Fault + bool) \<Rightarrow> 'a \<Rightarrow> 'a list \<Rightarrow> Fault + 'a list" where
  "insert_by lt x [] = Inr [x]"
| "insert_by lt x (y # ys) =
     (case lt y x of
        Inl f \<Rightarrow> Inl f
      | Inr b \<Rightarrow>
          if b then (case insert_by lt x ys of Inl f \<Rightarrow> Inl f | Inr r \<Rightarrow> Inr (y # r))
          else Inr (x # y # ys))"

fun sort_Slice :: "('a \<Rightarrow> 'a \<Rightarrow> Fault + bool) \<Rightarrow> 'a list \<Rightarrow> Fault + 'a list" where
  "sort_Slice lt [] = Inr []"
| "sort_Slice lt (x # xs) =
     (case sort_Slice lt xs of Inl f \<Rightarrow> Inl f | Inr s \<Rightarrow> insert_by lt x s)"

text \<open>The \<open>less\<close> function of \<open>sortMap\<close>; \<open>key.Int()\<close> and \<open>key.Uint()\<close> panic on a key of another type.\<close>

definition mapEntry_less ::
  "(Value \<Rightarrow> string) \<Rightarrow> Kind \<Rightarrow> Scalar \<times> Value \<Rightarrow> Scalar \<times> Value \<Rightarrow> Fault + bool" where
  "mapEntry_less sprint keyKind a b =
     (if keyKind \<in> {Int32Kind, Sint32Kind, Sfixed32Kind, Int64Kind, Sint64Kind, Sfixed64Kind}
      then (case (val_Int (VScalar (fst a)), val_Int (VScalar (fst b))) of
              (Some i, Some j) \<Rightarrow> Inr (i < j) | _ \<Rightarrow> Inl Panic)
      else if keyKind \<in> {Uint32Kind, Fixed32Kind, Uint64Kind, Fixed64Kind}
      then (case (val_Uint (VScalar (fst a)), val_Uint (VScalar (fst b))) of
              (Some i, Some j) \<Rightarrow> Inr (i < j) | _ \<Rightarrow> Inl Panic)
      else Inr (val_String sprint (VScalar (fst a)) < val_String sprint (VScalar (fst b))))"

definition sortMap ::
  "(Value \<Rightarrow> string) \<Rightarrow> Kind \<Rightarrow> (Scalar \<times> Value) list \<Rightarrow> Fault + (Scalar \<times> Value) list" where
  "sortMap sprint keyKind values = sort_Slice (mapEntry_less sprint keyKind) values"

lemma mset_insert_by: "insert_by lt x ys = Inr r \<Longrightarrow> mset r = add_mset x (mset ys)"
  by (induction ys arbitrary: r) (auto split: sum.splits if_splits)

lemma mset_sort_Slice: "sort_Slice lt xs = Inr r \<Longrightarrow> mset r = mset xs"
  by (induction xs arbitrary: r) (auto split: sum.splits dest: mset_insert_by)

text \<open>The entries \<open>marshalExtensions\<close> collects from \<open>m.Range\<close>: key, value, descriptor.\<close>

definition extensionEntries :: "Message \<Rightarrow> (string \<times> Value \<times> FieldDescriptor) list" where
  "extensionEntries m =
     map (\<lambda>(fd, v). (if fd_IsMessageSetExtension fd then Parent (fd_FullName fd) else fd_FullName fd, v, fd))
       (filter (\<lambda>(fd, v). fd_IsExtension fd) (Range m))"

lemma size_list_mset_cong: "mset xs = mset ys \<Longrightarrow> size_list f xs = size_list f ys"
proof -
  assume a: "mset xs = mset ys"
  have "sum_list (map f xs) = sum_list (map f ys)"
    using a by (metis mset_map sum_mset_sum_list)
  moreover have "length xs = length ys" using a by (rule mset_eq_length)
  ultimately show ?thesis by (simp add: size_list_conv_sum_list)
qed

lemma size_map_of: "map_of es k = Some v \<Longrightarrow> size v < size_list (size_prod (\<lambda>x. 0) size) es"
  by (induction es) (auto split: if_splits)

lemma size_Get:
  "Has m fd \<or> \<not> (fd_Cardinality fd \<noteq> Repeated \<and> fd_Message fd \<noteq> None) \<Longrightarrow> size (Get m fd) \<le> size m"
  by (cases m) (auto simp: Has_def Get_def unset_value_def fd_IsList_def dest!: size_map_of split: option.splits)

lemma size_list_map_filter_le:
  assumes "\<And>p. fst (snd (h p)) = snd p"
  shows "size_list (\<lambda>e. size (fst (snd e))) (map h (filter P es))
         \<le> size_list (size_prod (\<lambda>x. 0) size) es"
  using assms by (induction es) (auto simp: comp_def)

lemma size_extensionEntries:
  "size_list (\<lambda>e. size (fst (snd e))) (extensionEntries m) < size m"
proof (cases m)
  case (Message d es)
  have "size_list (\<lambda>e. size (fst (snd e))) (extensionEntries m)
        \<le> size_list (size_prod (\<lambda>x. 0) size) es"
    unfolding extensionEntries_def Message Message.sel
    by (rule size_list_map_filter_le) auto
  then show ?thesis using Message by simp
qed

text \<open>
  The functions of \<open>encode.go\<close>. Each takes the externals, the options and the encoder
  state, and returns the new encoder state or a fault: an error it returns, or a panic.
  The loops are functions of their own: \<open>marshalKnownFields\<close> (the loop of
  \<open>marshalFields\<close> over the declared fields), \<open>marshalListItems\<close>, \<open>marshalMapEntries\<close>
  and \<open>marshalExtensionEntries\<close>. A deferred \<open>EndObject\<close> or \<open>EndArray\<close> also runs when
  the body fails; the encoder of a failed call is never read again (\<open>Marshal\<close> returns
  nil), so a fault carries no encoder state. A nil descriptor that a method is called on
  (\<open>fd.Message()\<close>, \<open>fd.Enum()\<close>, \<open>fd.MapKey()\<close>, \<open>fd.MapValue()\<close>) and a value of the
  wrong type (\<open>val.Int()\<close> on a string) panic.
\<close>

function
  marshalMessage :: "Externals \<Rightarrow> MarshalOptions \<Rightarrow> Message \<Rightarrow> Encoder \<Rightarrow> Fault + Encoder" and
  marshalFields :: "Externals \<Rightarrow> MarshalOptions \<Rightarrow> Message \<Rightarrow> Encoder \<Rightarrow> Fault + Encoder" and
  marshalKnownFields ::
    "Externals \<Rightarrow> MarshalOptions \<Rightarrow> Message \<Rightarrow> FieldDescriptor list \<Rightarrow> Encoder \<Rightarrow> Fault + Encoder" and
  marshalValue ::
    "Externals \<Rightarrow> MarshalOptions \<Rightarrow> Value \<Rightarrow> FieldDescriptor \<Rightarrow> Encoder \<Rightarrow> Fault + Encoder" and
  marshalSingular ::
    "Externals \<Rightarrow> MarshalOptions \<Rightarrow> Value \<Rightarrow> FieldDescriptor \<Rightarrow> Encoder \<Rightarrow> Fault + Encoder" and
  marshalList ::
    "Externals \<Rightarrow> MarshalOptions \<Rightarrow> Value list \<Rightarrow> FieldDescriptor \<Rightarrow> Encoder \<Rightarrow> Fault + Encoder" and
  marshalListItems ::
    "Externals \<Rightarrow> MarshalOptions \<Rightarrow> Value list \<Rightarrow> FieldDescriptor \<Rightarrow> Encoder \<Rightarrow> Fault + Encoder" and
  marshalMap ::
    "Externals \<Rightarrow> MarshalOptions \<Rightarrow> (Scalar \<times> Value) list \<Rightarrow> FieldDescriptor \<Rightarrow> Encoder
       \<Rightarrow> Fault + Encoder" and
  marshalMapEntries ::
    "Externals \<Rightarrow> MarshalOptions \<Rightarrow> (Scalar \<times> Value) list \<Rightarrow> FieldDescriptor \<Rightarrow> Encoder
       \<Rightarrow> Fault + Encoder" and
  marshalExtensions :: "Externals \<Rightarrow> MarshalOptions \<Rightarrow> Message \<Rightarrow> Encoder \<Rightarrow> Fault + Encoder" and
  marshalExtensionEntries ::
    "Externals \<Rightarrow> MarshalOptions \<Rightarrow> (string \<times> Value \<times> FieldDescriptor) list \<Rightarrow> Encoder
       \<Rightarrow> Fault + Encoder"
where
  "marshalMessage x opts m enc =
     (if isCustomType x (md_FullName (Descriptor m)) then marshalCustomType x opts m enc
      else case marshalFields x opts m (StartObject enc) of
             Inl f \<Rightarrow> Inl f
           | Inr enc' \<Rightarrow> Inr (EndObject enc'))"
| "marshalFields x opts m enc =
     (if \<not> ProtoLegacy x \<and> md_IsMessageSet (Descriptor m)
      then Inl (Err (errors_New ''no support for proto1 MessageSets''))
      else case marshalKnownFields x opts m (md_Fields (Descriptor m)) enc of
             Inl f \<Rightarrow> Inl f
           | Inr enc' \<Rightarrow> marshalExtensions x opts m enc')"
| "marshalKnownFields x opts m [] enc = Inr enc"
| "marshalKnownFields x opts m (fd # fds) enc =
     (if \<not> Has m fd \<and> (\<not> EmitUnpopulated opts \<or> fd_ContainingOneof fd \<noteq> None)
      then marshalKnownFields x opts m fds enc
      else
        case (if UseProtoNames opts
              then (if fd_Kind fd = GroupKind
                    then (case fd_Message fd of None \<Rightarrow> Inl Panic | Some md \<Rightarrow> Inr (md_Name md))
                    else Inr (fd_Name fd))
              else Inr (fd_JSONName fd)) of
          Inl f \<Rightarrow> Inl f
        | Inr name \<Rightarrow>
            (case checked (WriteName (accepts x) name enc) of
               Inl f \<Rightarrow> Inl f
             | Inr enc1 \<Rightarrow>
                 (case marshalValue x opts
                         (if \<not> Has m fd \<and>
                             ((fd_Syntax fd = Proto2 \<and> fd_Default fd \<noteq> None) \<or>
                              (fd_Cardinality fd \<noteq> Repeated \<and> fd_Message fd \<noteq> None))
                          then VInvalid else Get m fd)
                         fd enc1 of
                    Inl f \<Rightarrow> Inl f
                  | Inr enc2 \<Rightarrow> marshalKnownFields x opts m fds enc2)))"
| "marshalValue x opts val fd enc =
     (if fd_IsList fd
      then (case val_List val of None \<Rightarrow> Inl Panic | Some list \<Rightarrow> marshalList x opts list fd enc)
      else if fd_IsMap fd
      then (case val_Map val of None \<Rightarrow> Inl Panic | Some mmap \<Rightarrow> marshalMap x opts mmap fd enc)
      else marshalSingular x opts val fd enc)"
| "marshalSingular x opts val fd enc =
     (if \<not> IsValid val then Inr (WriteNull enc)
      else case fd_Kind fd of
        BoolKind \<Rightarrow> (case val_Bool val of None \<Rightarrow> Inl Panic | Some b \<Rightarrow> Inr (WriteBool b enc))
      | StringKind \<Rightarrow> checked (WriteString (accepts x) (val_String (Sprint x) val) enc)
      | Int32Kind \<Rightarrow> (case val_Int val of None \<Rightarrow> Inl Panic | Some i \<Rightarrow> Inr (WriteInt i enc))
      | Sint32Kind \<Rightarrow> (case val_Int val of None \<Rightarrow> Inl Panic | Some i \<Rightarrow> Inr (WriteInt i enc))
      | Sfixed32Kind \<Rightarrow> (case val_Int val of None \<Rightarrow> Inl Panic | Some i \<Rightarrow> Inr (WriteInt i enc))
      | Uint32Kind \<Rightarrow> (case val_Uint val of None \<Rightarrow> Inl Panic | Some n \<Rightarrow> Inr (WriteUint n enc))
      | Fixed32Kind \<Rightarrow> (case val_Uint val of None \<Rightarrow> Inl Panic | Some n \<Rightarrow> Inr (WriteUint n enc))
      | Int64Kind \<Rightarrow> Inr (fst (WriteString (accepts x) (val_String (Sprint x) val) enc))
      | Sint64Kind \<Rightarrow> Inr (fst (WriteString (accepts x) (val_String (Sprint x) val) enc))
      | Uint64Kind \<Rightarrow> Inr (fst (WriteString (accepts x) (val_String (Sprint x) val) enc))
      | Sfixed64Kind \<Rightarrow> Inr (fst (WriteString (accepts x) (val_String (Sprint x) val) enc))
      | Fixed64Kind \<Rightarrow> Inr (fst (WriteString (accepts x) (val_String (Sprint x) val) enc))
      | FloatKind \<Rightarrow> (case val_Float val of None \<Rightarrow> Inl Panic | Some f \<Rightarrow> Inr (WriteFloat f 32 enc))
      | DoubleKind \<Rightarrow> (case val_Float val of None \<Rightarrow> Inl Panic | Some f \<Rightarrow> Inr (WriteFloat f 64 enc))
      | BytesKind \<Rightarrow>
          (case val_Bytes val of
             None \<Rightarrow> Inl Panic
           | Some bs \<Rightarrow> checked (WriteString (accepts x) (EncodeToString bs) enc))
      | EnumKind \<Rightarrow>
          (case fd_Enum fd of
             None \<Rightarrow> Inl Panic
           | Some ed \<Rightarrow>
               if enum_FullName ed = ''google.protobuf.NullValue'' then Inr (WriteNull enc)
               else (case val_Enum val of
                       None \<Rightarrow> Inl Panic
                     | Some n \<Rightarrow>
                         (case ByNumber ed n of
                            None \<Rightarrow> Inr (WriteInt n enc)
                          | Some name \<Rightarrow>
                              if UseEnumNumbers opts then Inr (WriteInt n enc)
                              else checked (WriteString (accepts x) name enc))))
      | MessageKind \<Rightarrow>
          (case val_Message val of None \<Rightarrow> Inl Panic | Some m \<Rightarrow> marshalMessage x opts m enc)
      | GroupKind \<Rightarrow>
          (case val_Message val of None \<Rightarrow> Inl Panic | Some m \<Rightarrow> marshalMessage x opts m enc)
      | OtherKind k \<Rightarrow> Inl Panic)"
| "marshalList x opts list fd enc =
     (case marshalListItems x opts list fd (StartArray enc) of
        Inl f \<Rightarrow> Inl f
      | Inr enc' \<Rightarrow> Inr (EndArray enc'))"
| "marshalListItems x opts [] fd enc = Inr enc"
| "marshalListItems x opts (item # items) fd enc =
     (case marshalSingular x opts item fd enc of
        Inl f \<Rightarrow> Inl f
      | Inr enc' \<Rightarrow> marshalListItems x opts items fd enc')"
| "marshalMap x opts mmap fd enc =
     (case fd_MapKey fd of
        None \<Rightarrow> Inl Panic
      | Some kd \<Rightarrow>
          (case sortMap (Sprint x) (fd_Kind kd) mmap of
             Inl f \<Rightarrow> Inl f
           | Inr entries \<Rightarrow>
               (case marshalMapEntries x opts entries fd (StartObject enc) of
                  Inl f \<Rightarrow> Inl f
                | Inr enc' \<Rightarrow> Inr (EndObject enc'))))"
| "marshalMapEntries x opts [] fd enc = Inr enc"
| "marshalMapEntries x opts (entry # entries) fd enc =
     (case checked (WriteName (accepts x) (val_String (Sprint x) (VScalar (fst entry))) enc) of
        Inl f \<Rightarrow> Inl f
      | Inr enc1 \<Rightarrow>
          (case (case fd_MapValue fd of
                   None \<Rightarrow> if IsValid (snd entry) then Inl Panic else Inr (WriteNull enc1)
                 | Some vd \<Rightarrow> marshalSingular x opts (snd entry) vd enc1) of
             Inl f \<Rightarrow> Inl f
           | Inr enc2 \<Rightarrow> marshalMapEntries x opts entries fd enc2))"
| "marshalExtensions x opts m enc =
     (case sort_Slice (\<lambda>a b. Inr (fst a < fst b)) (extensionEntries m) of
        Inl f \<Rightarrow> Inl f
      | Inr entries \<Rightarrow> marshalExtensionEntries x opts entries enc)"
| "marshalExtensionEntries x opts [] enc = Inr enc"
| "marshalExtensionEntries x opts (entry # entries) enc =
     (case checked (WriteName (accepts x) (''['' @ fst entry @ '']'') enc) of
        Inl f \<Rightarrow> Inl f
      | Inr enc1 \<Rightarrow>
          (case marshalValue x opts (fst (snd entry)) (snd (snd entry)) enc1 of
             Inl f \<Rightarrow> Inl f
           | Inr enc2 \<Rightarrow> marshalExtensionEntries x opts entries enc2))"
  by pat_completeness auto

text \<open>The three components of the termination order: content, rank of the function, loop length.\<close>

type_synonym marshal_args =
  "((Externals \<times> MarshalOptions \<times> Message \<times> Encoder
     + Externals \<times> MarshalOptions \<times> Message \<times> Encoder)
    + (Externals \<times> MarshalOptions \<times> Message \<times> FieldDescriptor list \<times> Encoder
       + (Externals \<times> MarshalOptions \<times> Value \<times> FieldDescriptor \<times> Encoder
          + Externals \<times> MarshalOptions \<times> Value \<times> FieldDescriptor \<times> Encoder)))
   + ((Externals \<times> MarshalOptions \<times> Value list \<times> FieldDescriptor \<times> Encoder
       + (Externals \<times> MarshalOptions \<times> Value list \<times> FieldDescriptor \<times> Encoder
          + Externals \<times> MarshalOptions \<times> (Scalar \<times> Value) list \<times> FieldDescriptor \<times> Encoder))
      + (Externals \<times> MarshalOptions \<times> (Scalar \<times> Value) list \<times> FieldDescriptor \<times> Encoder
         + (Externals \<times> MarshalOptions \<times> Message \<times> Encoder
            + Externals \<times> MarshalOptions \<times> (string \<times> Value \<times> FieldDescriptor) list \<times> Encoder)))"

definition marshal_content :: "marshal_args \<Rightarrow> nat" where
  "marshal_content =
     case_sum
       (case_sum
          (case_sum (\<lambda>(x, opts, m, enc). size m + 1) (\<lambda>(x, opts, m, enc). size m + 1))
          (case_sum (\<lambda>(x, opts, m, fds, enc). size m + 1)
             (case_sum (\<lambda>(x, opts, val, fd, enc). size val) (\<lambda>(x, opts, val, fd, enc). size val))))
       (case_sum
          (case_sum (\<lambda>(x, opts, list, fd, enc). size_list size list)
             (case_sum (\<lambda>(x, opts, list, fd, enc). size_list size list)
                (\<lambda>(x, opts, mmap, fd, enc). size_list (size_prod (\<lambda>k. 0) size) mmap)))
          (case_sum (\<lambda>(x, opts, mmap, fd, enc). size_list (size_prod (\<lambda>k. 0) size) mmap)
             (case_sum (\<lambda>(x, opts, m, enc). size m + 1)
                (\<lambda>(x, opts, es, enc). size_list (\<lambda>e. size (fst (snd e))) es))))"

definition marshal_rank :: "marshal_args \<Rightarrow> nat" where
  "marshal_rank =
     case_sum
       (case_sum
          (case_sum (\<lambda>a. 3) (\<lambda>a. 2))
          (case_sum (\<lambda>a. 1) (case_sum (\<lambda>a. 5) (\<lambda>a. 4))))
       (case_sum
          (case_sum (\<lambda>a. 1) (case_sum (\<lambda>a. 0) (\<lambda>a. 1)))
          (case_sum (\<lambda>a. 0) (case_sum (\<lambda>a. 1) (\<lambda>a. 0))))"

definition marshal_length :: "marshal_args \<Rightarrow> nat" where
  "marshal_length =
     case_sum
       (case_sum (\<lambda>a. 0) (case_sum (\<lambda>(x, opts, m, fds, enc). length fds) (\<lambda>a. 0)))
       (\<lambda>a. 0)"

lemma val_List_SomeD: "val_List v = Some xs \<Longrightarrow> v = VList xs"
  by (cases v) auto

lemma val_Map_SomeD: "val_Map v = Some es \<Longrightarrow> v = VMap es"
  by (cases v) auto

lemma val_Message_SomeD: "val_Message v = Some m \<Longrightarrow> v = VMessage m"
  by (cases v) auto

lemma size_sortMap:
  "sortMap sp k mmap = Inr b \<Longrightarrow> size_list f b = size_list f mmap"
  unfolding sortMap_def by (rule size_list_mset_cong) (rule mset_sort_Slice)

lemma size_sorted_extensionEntries:
  "sort_Slice lt (extensionEntries m) = Inr b \<Longrightarrow> size_list (\<lambda>e. size (fst (snd e))) b < size m"
  using size_extensionEntries [of m] size_list_mset_cong [OF mset_sort_Slice] by metis

termination marshalMessage
proof (relation "measures [marshal_content, marshal_rank, marshal_length]",
    goal_cases)
  case (6 x opts m fd fds enc b ba)
  then have "Has m fd \<or> \<not> (fd_Cardinality fd \<noteq> Repeated \<and> fd_Message fd \<noteq> None)
             \<or> (\<not> Has m fd \<and> ((fd_Syntax fd = Proto2 \<and> fd_Default fd \<noteq> None) \<or>
                              (fd_Cardinality fd \<noteq> Repeated \<and> fd_Message fd \<noteq> None)))"
    by blast
  then show ?case
    using size_Get [of m fd]
    by (auto simp: marshal_content_def marshal_rank_def marshal_length_def less_Suc_eq_le)
next
  case (19 x opts m enc b)
  then have "size_list (\<lambda>e. size (fst (snd e))) b < size m"
    by (rule size_sorted_extensionEntries)
  then show ?case
    by (simp add: marshal_content_def marshal_rank_def marshal_length_def)
qed (auto simp: marshal_content_def marshal_rank_def marshal_length_def size_sortMap
      dest!: val_List_SomeD val_Map_SomeD val_Message_SomeD)

declare marshalMessage.simps [simp del] marshalFields.simps [simp del]
  marshalKnownFields.simps(2) [simp del] marshalValue.simps [simp del]
  marshalSingular.simps [simp del] marshalList.simps [simp del] marshalMap.simps [simp del]
  marshalMapEntries.simps(2) [simp del] marshalExtensions.simps [simp del]
  marshalExtensionEntries.simps(2) [simp del]

lemmas marshal_simps =
  marshalMessage.simps marshalFields.simps marshalKnownFields.simps marshalValue.simps
  marshalSingular.simps marshalList.simps marshalListItems.simps marshalMap.simps
  marshalMapEntries.simps marshalExtensions.simps marshalExtensionEntries.simps

section \<open>Completeness and the entry points\<close>

text \<open>The messages of a message graph: the message itself and every message nested in its populated fields.\<close>

fun value_messages :: "Value \<Rightarrow> Message list" and message_graph :: "Message \<Rightarrow> Message list" where
  "value_messages VInvalid = []"
| "value_messages (VScalar s) = []"
| "value_messages (VMessage m) = message_graph m"
| "value_messages (VList xs) = concat (map value_messages xs)"
| "value_messages (VMap es) = concat (map (\<lambda>e. value_messages (snd e)) es)"
| "message_graph (Message d es) = Message d es # concat (map (\<lambda>e. value_messages (snd e)) es)"

definition unset_required :: "Message \<Rightarrow> FieldDescriptor list" where
  "unset_required m =
     filter (\<lambda>fd. fd_Cardinality fd = Required \<and> \<not> Has m fd) (md_Fields (Descriptor m))"

text \<open>
  Modelled from the spec: \<open>proto.IsInitialized\<close> (package \<open>proto\<close>, whose code is not
  among the sources), the completeness predicate: it fails if any required field
  anywhere in the message graph is unset.
\<close>

definition IsInitialized :: "Message \<Rightarrow> Error option" where
  "IsInitialized m =
     (if list_all (\<lambda>m'. unset_required m' = []) (message_graph m) then None
      else Some RequiredNotSet)"

text \<open>
  What a call of \<open>Marshal\<close> comes to: the byte slice (\<open>None\<close> for nil) and the error
  (\<open>None\<close> for nil) it returns, or a panic.
\<close>

datatype MarshalResult = Returns "Token list option" "Error option" | Panics

definition MarshalOptions_Marshal :: "Externals \<Rightarrow> MarshalOptions \<Rightarrow> Message \<Rightarrow> MarshalResult" where
  "MarshalOptions_Marshal x opts m =
     (case NewEncoder (Indent opts) of
        Inl err \<Rightarrow> Returns None (Some err)
      | Inr enc \<Rightarrow>
          (case marshalMessage x opts m enc of
             Inl (Err err) \<Rightarrow> Returns None (Some err)
           | Inl Panic \<Rightarrow> Panics
           | Inr enc' \<Rightarrow>
               if AllowPartial opts then Returns (Some (Bytes enc')) None
               else Returns (Some (Bytes enc')) (IsInitialized m)))"

definition Marshal :: "Externals \<Rightarrow> Message \<Rightarrow> MarshalResult" where
  "Marshal x m =
     MarshalOptions_Marshal x
       \<lparr>AllowPartial = False, UseProtoNames = False, UseEnumNumbers = False,
        EmitUnpopulated = False, Indent = []\<rparr> m"

section \<open>Notions the properties are stated with\<close>

text \<open>Reading a decimal numeral back.\<close>

definition decimal_value :: "string \<Rightarrow> nat" where
  "decimal_value s = foldl (\<lambda>a c. 10 * a + (of_char c - of_char CHR ''0'')) 0 s"

definition parse_int :: "string \<Rightarrow> int" where
  "parse_int s =
     (case s of
        [] \<Rightarrow> 0
      | c # r \<Rightarrow> if c = CHR ''-'' then - int (decimal_value r) else int (decimal_value s))"

text \<open>The keys a map of a given key kind holds.\<close>

definition key_has_kind :: "Kind \<Rightarrow> Scalar \<Rightarrow> bool" where
  "key_has_kind k s =
     (case s of
        SBool b \<Rightarrow> k = BoolKind
      | SInt32 i \<Rightarrow> k \<in> {Int32Kind, Sint32Kind, Sfixed32Kind}
      | SInt64 i \<Rightarrow> k \<in> {Int64Kind, Sint64Kind, Sfixed64Kind}
      | SUint32 n \<Rightarrow> k \<in> {Uint32Kind, Fixed32Kind}
      | SUint64 n \<Rightarrow> k \<in> {Uint64Kind, Fixed64Kind}
      | SString s \<Rightarrow> k = StringKind
      | _ \<Rightarrow> False)"

text \<open>
  The key-kind comparison rule in the spec's words: numeric comparison for integer keys
  (signed for the signed kinds, unsigned for the unsigned), lexicographic byte order for
  string keys; \<open>false\<close> before \<open>true\<close>.
\<close>

fun key_less :: "Scalar \<Rightarrow> Scalar \<Rightarrow> bool" where
  "key_less (SInt32 a) (SInt32 b) = (a < b)"
| "key_less (SInt64 a) (SInt64 b) = (a < b)"
| "key_less (SUint32 a) (SUint32 b) = (a < b)"
| "key_less (SUint64 a) (SUint64 b) = (a < b)"
| "key_less (SString a) (SString b) = (a < b)"
| "key_less (SBool a) (SBool b) = (a < b)"
| "key_less _ _ = False"

text \<open>One linear order for the three branches of \<open>sortMap\<close>: the number, then the string.\<close>

definition sortMap_key :: "(Value \<Rightarrow> string) \<Rightarrow> Kind \<Rightarrow> Scalar \<Rightarrow> int \<times> string" where
  "sortMap_key sp keyKind s =
     (if keyKind \<in> {Int32Kind, Sint32Kind, Sfixed32Kind, Int64Kind, Sint64Kind, Sfixed64Kind}
      then (case val_Int (VScalar s) of Some i \<Rightarrow> (i, []) | None \<Rightarrow> (0, []))
      else if keyKind \<in> {Uint32Kind, Fixed32Kind, Uint64Kind, Fixed64Kind}
      then (case val_Uint (VScalar s) of Some n \<Rightarrow> (int n, []) | None \<Rightarrow> (0, []))
      else (0, val_String sp (VScalar s)))"

text \<open>
  The same logical content under another storage order: the entries of every map and
  the populated fields of every message are the same up to their order, level by level.
\<close>

inductive same_value :: "Value \<Rightarrow> Value \<Rightarrow> bool"
  and same_message :: "Message \<Rightarrow> Message \<Rightarrow> bool" where
  same_invalid: "same_value VInvalid VInvalid"
| same_scalar: "same_value (VScalar s) (VScalar s)"
| same_nested: "same_message m m' \<Longrightarrow> same_value (VMessage m) (VMessage m')"
| same_list: "list_all2 same_value xs ys \<Longrightarrow> same_value (VList xs) (VList ys)"
| same_map:
    "list_all2 (\<lambda>a b. fst a = fst b \<and> same_value (snd a) (snd b)) xs zs \<Longrightarrow> mset zs = mset ys
     \<Longrightarrow> same_value (VMap xs) (VMap ys)"
| same_fields:
    "list_all2 (\<lambda>a b. fst a = fst b \<and> same_value (snd a) (snd b)) es zs \<Longrightarrow> mset zs = mset es'
     \<Longrightarrow> same_message (Message d es) (Message d es')"

inductive_cases same_VInvalidE: "same_value VInvalid v"

inductive_cases same_VScalarE: "same_value (VScalar s) v"

inductive_cases same_VMessageE: "same_value (VMessage m) v"

inductive_cases same_VListE: "same_value (VList xs) v"

inductive_cases same_VMapE: "same_value (VMap xs) v"

inductive_cases same_MessageE: "same_message (Message d es) m'"

text \<open>
  The inputs protoreflect can hand over: a list in a list field, a map with distinct keys
  of the key kind in a map field, a message only in a field of message or group kind,
  every field populated once, and no two extensions under one name.
\<close>

fun wf_singular :: "FieldDescriptor \<Rightarrow> Value \<Rightarrow> bool"
  and wf_value :: "FieldDescriptor \<Rightarrow> Value \<Rightarrow> bool"
  and wf_message :: "Message \<Rightarrow> bool" where
  "wf_singular fd VInvalid = True"
| "wf_singular fd (VScalar s) = True"
| "wf_singular fd (VMessage m) = (fd_Kind fd \<in> {MessageKind, GroupKind} \<and> wf_message m)"
| "wf_singular fd (VList xs) = False"
| "wf_singular fd (VMap es) = False"
| "wf_value fd VInvalid = (\<not> fd_IsList fd \<and> \<not> fd_IsMap fd)"
| "wf_value fd (VScalar s) = (\<not> fd_IsList fd \<and> \<not> fd_IsMap fd)"
| "wf_value fd (VMessage m) =
     (\<not> fd_IsList fd \<and> \<not> fd_IsMap fd \<and> fd_Kind fd \<in> {MessageKind, GroupKind} \<and> wf_message m)"
| "wf_value fd (VList xs) = (fd_IsList fd \<and> (\<forall>v \<in> set xs. wf_singular fd v))"
| "wf_value fd (VMap es) =
     (\<not> fd_IsList fd \<and> fd_IsMap fd \<and> distinct (map fst es) \<and>
      (case fd_MapKey fd of
         None \<Rightarrow> False
       | Some kd \<Rightarrow> \<forall>e \<in> set es. key_has_kind (fd_Kind kd) (fst e)) \<and>
      (case fd_MapValue fd of
         None \<Rightarrow> False
       | Some vd \<Rightarrow> \<forall>e \<in> set es. wf_singular vd (snd e)))"
| "wf_message (Message d es) =
     (distinct (map fst es) \<and> distinct (map fst (extensionEntries (Message d es))) \<and>
      (\<forall>e \<in> set es. wf_value (fst e) (snd e)))"

text \<open>The custom-type hook is itself insensitive to the storage order.\<close>

definition hook_respects :: "Externals \<Rightarrow> bool" where
  "hook_respects x \<longleftrightarrow>
     (\<forall>opts m m' enc. wf_message m \<longrightarrow> same_message m m' \<longrightarrow>
        marshalCustomType x opts m enc = marshalCustomType x opts m' enc)"

text \<open>One encoder state extends another: the same indent, and more tokens at the end.\<close>

definition extends :: "Encoder \<Rightarrow> Encoder \<Rightarrow> bool" where
  "extends enc enc' \<longleftrightarrow> (\<exists>ts. enc' = enc\<lparr>out := out enc @ ts\<rparr>)"

text \<open>The custom-type hook only writes tokens.\<close>

definition hook_appends :: "Externals \<Rightarrow> bool" where
  "hook_appends x \<longleftrightarrow>
     (\<forall>opts m enc enc'. marshalCustomType x opts m enc = Inr enc' \<longrightarrow> extends enc enc')"



text \<open>The three decisions of the loop over the declared fields, named for the proofs.\<close>

definition field_skipped :: "MarshalOptions \<Rightarrow> Message \<Rightarrow> FieldDescriptor \<Rightarrow> bool" where
  "field_skipped opts m fd \<longleftrightarrow>
     \<not> Has m fd \<and> (\<not> EmitUnpopulated opts \<or> fd_ContainingOneof fd \<noteq> None)"

definition field_name :: "MarshalOptions \<Rightarrow> FieldDescriptor \<Rightarrow> Fault + string" where
  "field_name opts fd =
     (if UseProtoNames opts
      then (if fd_Kind fd = GroupKind
            then (case fd_Message fd of None \<Rightarrow> Inl Panic | Some md \<Rightarrow> Inr (md_Name md))
            else Inr (fd_Name fd))
      else Inr (fd_JSONName fd))"

definition field_value :: "Message \<Rightarrow> FieldDescriptor \<Rightarrow> Value" where
  "field_value m fd =
     (if \<not> Has m fd \<and>
         ((fd_Syntax fd = Proto2 \<and> fd_Default fd \<noteq> None) \<or>
          (fd_Cardinality fd \<noteq> Repeated \<and> fd_Message fd \<noteq> None))
      then VInvalid else Get m fd)"

section \<open>Example inputs\<close>

definition ex_externals :: Externals where
  "ex_externals =
     \<lparr>ProtoLegacy = False, accepts = (\<lambda>s. True), Sprint = (\<lambda>v. []),
      isCustomType = (\<lambda>n. False), marshalCustomType = (\<lambda>opts m enc. Inr enc)\<rparr>"

definition ex_options :: MarshalOptions where
  "ex_options =
     \<lparr>AllowPartial = False, UseProtoNames = False, UseEnumNumbers = False,
      EmitUnpopulated = False, Indent = []\<rparr>"

definition ex_encoder :: Encoder where
  "ex_encoder = \<lparr>indent = [], out = []\<rparr>"

text \<open>A singular field of package \<open>pkg\<close>: name, JSON name, kind, cardinality, syntax, default.\<close>

definition ex_field ::
  "string \<Rightarrow> string \<Rightarrow> Kind \<Rightarrow> Cardinality \<Rightarrow> Syntax \<Rightarrow> Scalar option \<Rightarrow> FieldDescriptor" where
  "ex_field name json kind cardinality syn dflt =
     FieldDescriptor name (''pkg.M.'' @ name) json kind cardinality syn dflt None False False False
       None None None None"

text \<open>An extension field of kind int32 with the given full name.\<close>

definition ex_extension :: "string \<Rightarrow> FieldDescriptor" where
  "ex_extension full =
     FieldDescriptor ''ext'' full ''ext'' Int32Kind Optional Proto2 (Some (SInt32 0)) None True False
       False None None None None"

text \<open>A field of message or group kind with the given nested descriptor.\<close>

definition ex_message_field :: "string \<Rightarrow> string \<Rightarrow> Kind \<Rightarrow> MessageDescriptor \<Rightarrow> FieldDescriptor" where
  "ex_message_field name json kind md =
     FieldDescriptor name (''pkg.M.'' @ name) json kind Optional Proto2 None None False False False
       None None None (Some md)"

definition ex_empty_set :: MessageDescriptor where
  "ex_empty_set = MessageDescriptor ''Set'' ''pkg.Set'' True []"

definition ex_group_desc :: MessageDescriptor where
  "ex_group_desc = MessageDescriptor ''MyGroup'' ''pkg.M.MyGroup'' False []"

definition ex_group_field :: FieldDescriptor where
  "ex_group_field = ex_message_field ''mygroup'' ''mygroup'' GroupKind ex_group_desc"

definition ex_group_message :: Message where
  "ex_group_message =
     Message (MessageDescriptor ''M'' ''pkg.M'' False [ex_group_field])
       [(ex_group_field, VMessage (Message ex_group_desc []))]"

definition ex_enum :: EnumDescriptor where
  "ex_enum = \<lparr>enum_FullName = ''pkg.Color'', enum_Values = [(''RED'', 0), (''GREEN'', 1)]\<rparr>"

definition ex_enum_field :: "EnumDescriptor \<Rightarrow> FieldDescriptor" where
  "ex_enum_field ed =
     FieldDescriptor ''color'' ''pkg.M.color'' ''color'' EnumKind Optional Proto3 (Some (SEnum 0)) None
       False False False None None (Some ed) None"

definition ex_name_field :: FieldDescriptor where
  "ex_name_field = ex_field ''name'' ''name'' StringKind Optional Proto3 (Some (SString []))"

definition ex_tags_field :: FieldDescriptor where
  "ex_tags_field = ex_field ''tags'' ''tags'' StringKind Repeated Proto3 None"

definition ex_count_field :: FieldDescriptor where
  "ex_count_field = ex_field ''count'' ''count'' Int32Kind Optional Proto2 (Some (SInt32 5))"

definition ex_required_field :: FieldDescriptor where
  "ex_required_field = ex_field ''id'' ''id'' Int32Kind Required Proto2 (Some (SInt32 0))"

definition ex_child_desc :: MessageDescriptor where
  "ex_child_desc = MessageDescriptor ''Child'' ''pkg.Child'' False [ex_required_field]"

definition ex_child_field :: FieldDescriptor where
  "ex_child_field = ex_message_field ''child'' ''child'' MessageKind ex_child_desc"

definition ex_set_field :: FieldDescriptor where
  "ex_set_field = ex_message_field ''set'' ''set'' MessageKind ex_empty_set"

text \<open>A proto3 message \<open>{name: "", tags: []}\<close>: both fields unpopulated.\<close>

definition ex_proto3_message :: Message where
  "ex_proto3_message = Message (MessageDescriptor ''M'' ''pkg.M'' False [ex_name_field, ex_tags_field]) []"

text \<open>A message whose populated field \<open>child\<close> holds a message without its required field \<open>id\<close>.\<close>

definition ex_incomplete_message :: Message where
  "ex_incomplete_message =
     Message (MessageDescriptor ''M'' ''pkg.M'' False [ex_child_field])
       [(ex_child_field, VMessage (Message ex_child_desc []))]"

text \<open>
  A message whose required field \<open>id\<close> is unset and whose populated field \<open>set\<close> holds a
  message set.
\<close>

definition ex_incomplete_set_message :: Message where
  "ex_incomplete_set_message =
     Message (MessageDescriptor ''Outer'' ''pkg.Outer'' False [ex_required_field, ex_set_field])
       [(ex_set_field, VMessage (Message ex_empty_set []))]"

definition ex_map_field :: "Kind \<Rightarrow> FieldDescriptor" where
  "ex_map_field keyKind =
     FieldDescriptor ''labels'' ''pkg.M.labels'' ''labels'' MessageKind Repeated Proto3 None None False
       False True
       (Some (ex_field ''key'' ''key'' keyKind Optional Proto3 None))
       (Some (ex_field ''value'' ''value'' StringKind Optional Proto3 (Some (SString []))))
       None (Some (MessageDescriptor ''LabelsEntry'' ''pkg.M.LabelsEntry'' False []))"

text \<open>Two storage orders of one message: a map of two entries and two extensions.\<close>

definition ex_stored :: Message where
  "ex_stored =
     Message (MessageDescriptor ''M'' ''pkg.M'' False [ex_map_field Sint32Kind])
       [(ex_map_field Sint32Kind,
           VMap [(SInt32 2, VScalar (SString ''b'')), (SInt32 1, VScalar (SString ''a''))]),
        (ex_extension ''pkg.b'', VScalar (SInt32 7)),
        (ex_extension ''pkg.a'', VScalar (SInt32 8))]"

definition ex_stored' :: Message where
  "ex_stored' =
     Message (MessageDescriptor ''M'' ''pkg.M'' False [ex_map_field Sint32Kind])
       [(ex_extension ''pkg.a'', VScalar (SInt32 8)),
        (ex_map_field Sint32Kind,
           VMap [(SInt32 1, VScalar (SString ''a'')), (SInt32 2, VScalar (SString ''b''))]),
        (ex_extension ''pkg.b'', VScalar (SInt32 7))]"

text \<open>A message with one declared field and two extensions, stored out of order.\<close>

definition ex_extended :: Message where
  "ex_extended =
     Message (MessageDescriptor ''M'' ''pkg.M'' False [ex_name_field])
       [(ex_extension ''pkg.ext2'', VScalar (SInt32 2)),
        (ex_name_field, VScalar (SString ''n'')),
        (ex_extension ''pkg.ext'', VScalar (SInt32 1))]"

text \<open>A message set with two message-set extensions (legacy mode).\<close>

definition ex_set_extension :: "string \<Rightarrow> FieldDescriptor" where
  "ex_set_extension parent =
     FieldDescriptor ''message_set_extension'' (parent @ ''.message_set_extension'')
       ''messageSetExtension'' MessageKind Optional Proto2 None None True True False None None None
       (Some (MessageDescriptor ''Item'' parent False []))"

definition ex_set_message :: Message where
  "ex_set_message =
     Message ex_empty_set
       [(ex_set_extension ''pkg.Zed'', VMessage (Message (MessageDescriptor ''Item'' ''pkg.Zed'' False []) [])),
        (ex_set_extension ''pkg.Alpha'', VMessage (Message (MessageDescriptor ''Item'' ''pkg.Alpha'' False []) []))]"






section \<open>Rejection of message sets\<close>

lemma out_emit [simp]: "out (emit t enc) = out enc @ [t]"
  by (simp add: emit_def)

lemma indent_emit [simp]: "indent (emit t enc) = indent enc"
  by (simp add: emit_def)

lemmas writer_defs =
  StartObject_def EndObject_def StartArray_def EndArray_def WriteNull_def WriteBool_def
  WriteInt_def WriteUint_def WriteFloat_def WriteName_def WriteString_def checked_def

text \<open>
  Claim C9. For a message whose descriptor is a legacy message set, \<open>marshalFields\<close>
  fails with the error "no support for proto1 MessageSets" unless \<open>flags.ProtoLegacy\<close>
  is enabled, and so does \<open>Marshal\<close> on such a message (a valid indent, no custom
  type); with the flag enabled the message is not rejected: its fields and extensions
  are marshaled.
\<close>

theorem messageset_unsupported:
  assumes "md_IsMessageSet (Descriptor m)"
  shows "marshalFields x opts m enc =
           (if ProtoLegacy x
            then (case marshalKnownFields x opts m (md_Fields (Descriptor m)) enc of
                    Inl f \<Rightarrow> Inl f
                  | Inr enc' \<Rightarrow> marshalExtensions x opts m enc')
            else Inl (Err (errors_New ''no support for proto1 MessageSets''))) \<and>
         (\<not> ProtoLegacy x \<and> \<not> isCustomType x (md_FullName (Descriptor m)) \<and>
          NewEncoder (Indent opts) = Inr enc0 \<longrightarrow>
            MarshalOptions_Marshal x opts m =
              Returns None (Some (errors_New ''no support for proto1 MessageSets'')))"
  using assms by (simp add: MarshalOptions_Marshal_def marshalMessage.simps marshalFields.simps)

theorem messageset_unsupported_witness:
  "md_IsMessageSet (Descriptor (Message ex_empty_set [])) \<and>
   marshalFields ex_externals ex_options (Message ex_empty_set []) ex_encoder =
     Inl (Err (errors_New ''no support for proto1 MessageSets'')) \<and>
   MarshalOptions_Marshal ex_externals ex_options (Message ex_empty_set []) =
     Returns None (Some (errors_New ''no support for proto1 MessageSets'')) \<and>
   marshalFields (ex_externals\<lparr>ProtoLegacy := True\<rparr>) ex_options (Message ex_empty_set []) ex_encoder =
     Inr ex_encoder"
  using messageset_unsupported [of "Message ex_empty_set []" ex_externals ex_options ex_encoder ex_encoder]
    messageset_unsupported [of "Message ex_empty_set []" "ex_externals\<lparr>ProtoLegacy := True\<rparr>" ex_options ex_encoder ex_encoder]
  by (simp add: ex_empty_set_def ex_externals_def ex_options_def ex_encoder_def NewEncoder_def
      extensionEntries_def marshal_simps)

lemmas ex_defs =
  ex_externals_def ex_options_def ex_encoder_def ex_field_def ex_extension_def
  ex_message_field_def ex_empty_set_def

lemmas eval_defs =
  marshal_simps writer_defs emit_def NewEncoder_def Bytes_def Has_def Get_def unset_value_def
  fd_IsList_def IsValid_def extensionEntries_def MarshalOptions_Marshal_def IsInitialized_def
  unset_required_def sortMap_def mapEntry_less_def ByNumber_def

section \<open>Field names\<close>

text \<open>
  Claim C8 says that a group-kind field is named by its nested message's own name in
  either mode. Without \<open>UseProtoNames\<close> it is not: the group field \<open>mygroup\<close> of
  type \<open>MyGroup\<close> is written under its JSON name \<open>mygroup\<close>.
\<close>

theorem group_name_counterexample:
  "fd_Kind ex_group_field = GroupKind \<and>
   fd_Message ex_group_field = Some ex_group_desc \<and>
   md_Name ex_group_desc = ''MyGroup'' \<and>
   fd_Name ex_group_field = ''mygroup'' \<and>
   \<not> UseProtoNames ex_options \<and>
   MarshalOptions_Marshal ex_externals ex_options ex_group_message =
     Returns (Some [TStartObject, TName ''mygroup'', TStartObject, TEndObject, TEndObject]) None"
  by (simp add: ex_group_field_def ex_group_desc_def ex_group_message_def ex_defs eval_defs)

text \<open>
  Claim C8, amended. Every emitted field is named by its JSON name by default; when
  \<open>UseProtoNames\<close> is set it is named by its declared name, except that a group-kind
  field is then named by its nested message's own name. Without \<open>UseProtoNames\<close> a
  group-kind field is named by its JSON name like any other field.
\<close>

theorem field_name_resolution:
  assumes "Has m fd \<or> (EmitUnpopulated opts \<and> fd_ContainingOneof fd = None)"
    and "fd_Kind fd = GroupKind \<longrightarrow> fd_Message fd = Some md"
  shows "marshalKnownFields x opts m (fd # fds) enc =
           (case checked (WriteName (accepts x)
                   (if UseProtoNames opts
                    then (if fd_Kind fd = GroupKind then md_Name md else fd_Name fd)
                    else fd_JSONName fd) enc) of
              Inl f \<Rightarrow> Inl f
            | Inr enc1 \<Rightarrow>
                (case marshalValue x opts
                        (if \<not> Has m fd \<and>
                            ((fd_Syntax fd = Proto2 \<and> fd_Default fd \<noteq> None) \<or>
                             (fd_Cardinality fd \<noteq> Repeated \<and> fd_Message fd \<noteq> None))
                         then VInvalid else Get m fd)
                        fd enc1 of
                   Inl f \<Rightarrow> Inl f
                 | Inr enc2 \<Rightarrow> marshalKnownFields x opts m fds enc2))"
  using assms by (auto simp: marshalKnownFields.simps)

theorem field_name_resolution_witness:
  "Has ex_group_message ex_group_field \<and>
   fd_Message ex_group_field = Some ex_group_desc \<and>
   marshalKnownFields ex_externals (ex_options\<lparr>UseProtoNames := True\<rparr>) ex_group_message
     [ex_group_field] ex_encoder =
     Inr \<lparr>indent = [], out = [TName ''MyGroup'', TStartObject, TEndObject]\<rparr> \<and>
   marshalKnownFields ex_externals ex_options ex_group_message [ex_group_field] ex_encoder =
     Inr \<lparr>indent = [], out = [TName ''mygroup'', TStartObject, TEndObject]\<rparr>"
proof -
  have h: "Has ex_group_message ex_group_field"
    by (simp add: Has_def ex_group_message_def)
  have g: "fd_Kind ex_group_field = GroupKind \<longrightarrow> fd_Message ex_group_field = Some ex_group_desc"
    by (simp add: ex_group_field_def ex_defs)
  show ?thesis
    using field_name_resolution [OF disjI1 [OF h] g, of ex_externals "ex_options\<lparr>UseProtoNames := True\<rparr>" "[]" ex_encoder]
      field_name_resolution [OF disjI1 [OF h] g, of ex_externals ex_options "[]" ex_encoder]
    by (simp add: ex_group_field_def ex_group_desc_def ex_group_message_def ex_defs eval_defs)
qed

section \<open>Scalars\<close>

lemma of_char_digit_char: "d < 10 \<Longrightarrow> of_char (digit_char d) = (48::nat) + d"
proof -
  assume "d < 10"
  then have "d \<in> {0, 1, 2, 3, 4, 5, 6, 7, 8, 9}" by auto
  then show ?thesis by (auto simp: digit_char_def)
qed

lemma decimal_value_snoc:
  "decimal_value (s @ [c]) = 10 * decimal_value s + (of_char c - of_char CHR ''0'')"
  by (simp add: decimal_value_def)

lemma decimal_value_digits: "decimal_value (digits n) = n"
proof (induction n rule: digits.induct)
  case (1 n)
  show ?case
  proof (cases "n < 10")
    case True
    then show ?thesis
      by (subst digits.simps) (simp add: decimal_value_def of_char_digit_char)
  next
    case False
    then have "decimal_value (digits (n div 10)) = n div 10" using 1 by simp
    then show ?thesis
      using False
      by (subst digits.simps) (simp add: decimal_value_snoc of_char_digit_char)
  qed
qed

lemma hd_digits: "hd (digits n) \<noteq> CHR ''-''"
proof (induction n rule: digits.induct)
  case (1 n)
  show ?case
  proof (cases "n < 10")
    case True
    have "of_char (digit_char n) \<noteq> (of_char CHR ''-'' :: nat)"
      using True by (simp add: of_char_digit_char)
    then have "digit_char n \<noteq> CHR ''-''" by auto
    then show ?thesis using True by (subst digits.simps) simp
  next
    case False
    have ne: "digits (n div 10) \<noteq> []" by (subst digits.simps) simp
    show ?thesis using False 1 ne by (subst digits.simps) simp
  qed
qed

lemma digits_nonempty: "digits n \<noteq> []"
  by (subst digits.simps) simp

lemma parse_int_show_int: "parse_int (show_int i) = i"
proof (cases "i < 0")
  case True
  then show ?thesis by (simp add: parse_int_def show_int_def decimal_value_digits)
next
  case False
  obtain c r where cr: "digits (nat i) = c # r"
    using digits_nonempty [of "nat i"] by (cases "digits (nat i)") auto
  have "c \<noteq> CHR ''-''" using hd_digits [of "nat i"] cr by simp
  then show ?thesis
    using False cr decimal_value_digits [of "nat i"]
    by (simp add: parse_int_def show_int_def)
qed

text \<open>
  Claim C6. For a field of a 64-bit integer kind (Int64, Sint64, Uint64, Sfixed64,
  Fixed64) every valid value is written with the writer's string emitter, never as a
  number: the token is the string \<open>val.String()\<close>, which for a 64-bit integer value is
  its decimal representation (reading it back gives the value).
\<close>

theorem int64_as_string:
  assumes "fd_Kind fd \<in> {Int64Kind, Sint64Kind, Uint64Kind, Sfixed64Kind, Fixed64Kind}"
    and "IsValid val"
  shows "marshalSingular x opts val fd enc = Inr (emit (TString (val_String (Sprint x) val)) enc) \<and>
         val_String (Sprint x) (VScalar (SInt64 i)) = show_int i \<and>
         val_String (Sprint x) (VScalar (SUint64 n)) = show_int (int n) \<and>
         parse_int (show_int i) = i \<and> parse_int (show_int (int n)) = int n"
  using assms by (auto simp: marshalSingular.simps WriteString_def parse_int_show_int)

theorem int64_as_string_witness:
  "IsValid (VScalar (SInt64 (- 9007199254740993))) \<and>
   marshalSingular ex_externals ex_options (VScalar (SInt64 (- 9007199254740993)))
     (ex_field ''total'' ''total'' Sint64Kind Optional Proto3 (Some (SInt64 0))) ex_encoder =
     Inr \<lparr>indent = [], out = [TString ''-9007199254740993'']\<rparr> \<and>
   marshalSingular ex_externals ex_options (VScalar (SUint64 18446744073709551615))
     (ex_field ''total'' ''total'' Fixed64Kind Optional Proto3 (Some (SUint64 0))) ex_encoder =
     Inr \<lparr>indent = [], out = [TString ''18446744073709551615'']\<rparr>"
proof -
  have v: "IsValid (VScalar (SInt64 (- 9007199254740993)))" "IsValid (VScalar (SUint64 18446744073709551615))"
    by (simp_all add: IsValid_def)
  have k: "fd_Kind (ex_field ''total'' ''total'' Sint64Kind Optional Proto3 (Some (SInt64 0)))
           \<in> {Int64Kind, Sint64Kind, Uint64Kind, Sfixed64Kind, Fixed64Kind}"
     "fd_Kind (ex_field ''total'' ''total'' Fixed64Kind Optional Proto3 (Some (SUint64 0)))
           \<in> {Int64Kind, Sint64Kind, Uint64Kind, Sfixed64Kind, Fixed64Kind}"
    by (simp_all add: ex_field_def)
  have d: "show_int (- 9007199254740993) = ''-9007199254740993''"
     "show_int 18446744073709551615 = ''18446744073709551615''"
    by (simp_all add: show_int_def digits.simps digit_char_def)
  show ?thesis
    using v int64_as_string [OF k(1) v(1), of ex_externals ex_options ex_encoder]
      int64_as_string [OF k(2) v(2), of ex_externals ex_options ex_encoder]
    by (simp add: d emit_def ex_encoder_def)
qed

lemma ByNumber_None_iff: "ByNumber ed n = None \<longleftrightarrow> n \<notin> snd ` set (enum_Values ed)"
  by (force simp: ByNumber_def find_None_iff)

lemma ByNumber_SomeD: "ByNumber ed n = Some name \<Longrightarrow> (name, n) \<in> set (enum_Values ed)"
  by (auto simp: ByNumber_def find_Some_iff) (metis nth_mem snd_conv)

text \<open>
  Claim C7. An enum-kinded value renders as JSON null when the enum is
  \<open>google.protobuf.NullValue\<close>, whatever the mode and the value; otherwise as the bare
  number when \<open>UseEnumNumbers\<close> is set or the enum declares no value with that number;
  otherwise as the string of the symbolic name declared for the number.
\<close>

theorem enum_rendering:
  assumes "fd_Kind fd = EnumKind" and "fd_Enum fd = Some ed"
  shows "(enum_FullName ed = ''google.protobuf.NullValue'' \<longrightarrow>
            marshalSingular x opts val fd enc = Inr (WriteNull enc)) \<and>
         (enum_FullName ed \<noteq> ''google.protobuf.NullValue'' \<and>
          (UseEnumNumbers opts \<or> n \<notin> snd ` set (enum_Values ed)) \<longrightarrow>
            marshalSingular x opts (VScalar (SEnum n)) fd enc = Inr (WriteInt n enc)) \<and>
         (enum_FullName ed \<noteq> ''google.protobuf.NullValue'' \<and> \<not> UseEnumNumbers opts \<and>
          n \<in> snd ` set (enum_Values ed) \<longrightarrow>
            (\<exists>name. (name, n) \<in> set (enum_Values ed) \<and> ByNumber ed n = Some name \<and>
               marshalSingular x opts (VScalar (SEnum n)) fd enc =
                 checked (WriteString (accepts x) name enc)))"
proof (intro conjI impI)
  assume "enum_FullName ed = ''google.protobuf.NullValue''"
  then show "marshalSingular x opts val fd enc = Inr (WriteNull enc)"
    using assms by (simp add: marshalSingular.simps)
next
  assume a: "enum_FullName ed \<noteq> ''google.protobuf.NullValue'' \<and>
             (UseEnumNumbers opts \<or> n \<notin> snd ` set (enum_Values ed))"
  then show "marshalSingular x opts (VScalar (SEnum n)) fd enc = Inr (WriteInt n enc)"
    using assms ByNumber_None_iff [of ed n]
    by (auto simp: marshalSingular.simps IsValid_def split: option.splits)
next
  assume a: "enum_FullName ed \<noteq> ''google.protobuf.NullValue'' \<and> \<not> UseEnumNumbers opts \<and>
          n \<in> snd ` set (enum_Values ed)"
  then obtain name where nm: "ByNumber ed n = Some name"
    using ByNumber_None_iff [of ed n] by (cases "ByNumber ed n") auto
  have "marshalSingular x opts (VScalar (SEnum n)) fd enc = checked (WriteString (accepts x) name enc)"
    using assms a nm by (simp add: marshalSingular.simps IsValid_def)
  then show "\<exists>name. (name, n) \<in> set (enum_Values ed) \<and> ByNumber ed n = Some name \<and>
               marshalSingular x opts (VScalar (SEnum n)) fd enc =
                 checked (WriteString (accepts x) name enc)"
    using nm ByNumber_SomeD [OF nm] by blast
qed

theorem enum_rendering_witness:
  "fd_Kind (ex_enum_field ex_enum) = EnumKind \<and> fd_Enum (ex_enum_field ex_enum) = Some ex_enum \<and>
   marshalSingular ex_externals ex_options (VScalar (SEnum 7)) (ex_enum_field ex_enum) ex_encoder =
     Inr \<lparr>indent = [], out = [TInt 7]\<rparr> \<and>
   marshalSingular ex_externals ex_options (VScalar (SEnum 1)) (ex_enum_field ex_enum) ex_encoder =
     Inr \<lparr>indent = [], out = [TString ''GREEN'']\<rparr> \<and>
   marshalSingular ex_externals (ex_options\<lparr>UseEnumNumbers := True\<rparr>) (VScalar (SEnum 1))
     (ex_enum_field ex_enum) ex_encoder =
     Inr \<lparr>indent = [], out = [TInt 1]\<rparr> \<and>
   marshalSingular ex_externals (ex_options\<lparr>UseEnumNumbers := True\<rparr>) (VScalar (SEnum 1))
     (ex_enum_field (ex_enum\<lparr>enum_FullName := ''google.protobuf.NullValue''\<rparr>)) ex_encoder =
     Inr \<lparr>indent = [], out = [TNull]\<rparr>"
proof -
  have k: "fd_Kind (ex_enum_field ed) = EnumKind" "fd_Enum (ex_enum_field ed) = Some ed" for ed
    by (simp_all add: ex_enum_field_def)
  show ?thesis
    using k [of ex_enum]
      enum_rendering [OF k, of ex_enum ex_externals ex_options "VScalar (SEnum 7)" ex_encoder 7]
      enum_rendering [OF k, of ex_enum ex_externals ex_options "VScalar (SEnum 1)" ex_encoder 1]
      enum_rendering [OF k, of ex_enum ex_externals "ex_options\<lparr>UseEnumNumbers := True\<rparr>"
        "VScalar (SEnum 1)" ex_encoder 1]
      enum_rendering [OF k, of "ex_enum\<lparr>enum_FullName := ''google.protobuf.NullValue''\<rparr>"
        ex_externals "ex_options\<lparr>UseEnumNumbers := True\<rparr>" "VScalar (SEnum 1)" ex_encoder 1]
    by (simp add: ex_enum_def ex_defs writer_defs emit_def ByNumber_def)
qed

section \<open>Unpopulated fields\<close>




lemmas ex_message_defs =
  ex_name_field_def ex_tags_field_def ex_count_field_def ex_required_field_def ex_child_desc_def
  ex_child_field_def ex_set_field_def ex_proto3_message_def ex_incomplete_message_def
  ex_incomplete_set_message_def


section \<open>Incomplete messages\<close>

text \<open>
  Claim C1 says that for every message with a required field unset and
  \<open>AllowPartial\<close> false the returned byte slice holds the JSON produced. It does not
  when the body fails: the message below lacks its required field \<open>id\<close> and holds a
  message set, and \<open>Marshal\<close> returns a nil slice with the body's error.
\<close>

theorem incomplete_body_error_counterexample:
  "\<not> AllowPartial ex_options \<and>
   ex_incomplete_set_message \<in> set (message_graph ex_incomplete_set_message) \<and>
   unset_required ex_incomplete_set_message = [ex_required_field] \<and>
   MarshalOptions_Marshal ex_externals ex_options ex_incomplete_set_message =
     Returns None (Some (errors_New ''no support for proto1 MessageSets''))"
  by (simp add: ex_message_defs ex_defs eval_defs)

text \<open>
  Claim C1, amended. For every message with \<open>AllowPartial\<close> false and a required
  field unset somewhere in the message graph, whose body is marshaled without error
  (the encoder is constructed and \<open>marshalMessage\<close> succeeds), \<open>Marshal\<close> returns a
  non-nil error together with the bytes produced by the body.
\<close>

theorem incomplete_message_returns_bytes:
  assumes "\<not> AllowPartial opts"
    and "NewEncoder (Indent opts) = Inr enc0"
    and "marshalMessage x opts m enc0 = Inr enc'"
    and "m' \<in> set (message_graph m)"
    and "fd \<in> set (md_Fields (Descriptor m'))"
    and "fd_Cardinality fd = Required"
    and "\<not> Has m' fd"
  shows "MarshalOptions_Marshal x opts m = Returns (Some (Bytes enc')) (Some RequiredNotSet)"
proof -
  have "fd \<in> set (unset_required m')"
    using assms by (simp add: unset_required_def)
  then have "unset_required m' \<noteq> []" by auto
  then have "IsInitialized m = Some RequiredNotSet"
    using assms(4) by (auto simp: IsInitialized_def list_all_iff)
  then show ?thesis
    using assms by (simp add: MarshalOptions_Marshal_def)
qed

theorem incomplete_message_returns_bytes_witness:
  "\<not> AllowPartial ex_options \<and>
   Message ex_child_desc [] \<in> set (message_graph ex_incomplete_message) \<and>
   ex_required_field \<in> set (md_Fields (Descriptor (Message ex_child_desc []))) \<and>
   fd_Cardinality ex_required_field = Required \<and>
   \<not> Has (Message ex_child_desc []) ex_required_field \<and>
   MarshalOptions_Marshal ex_externals ex_options ex_incomplete_message =
     Returns (Some [TStartObject, TName ''child'', TStartObject, TEndObject, TEndObject])
       (Some RequiredNotSet)"
proof -
  have a: "\<not> AllowPartial ex_options" by (simp add: ex_options_def)
  have b: "NewEncoder (Indent ex_options) = Inr ex_encoder"
    by (simp add: NewEncoder_def ex_options_def ex_encoder_def)
  have c: "marshalMessage ex_externals ex_options ex_incomplete_message ex_encoder =
      Inr \<lparr>indent = [], out = [TStartObject, TName ''child'', TStartObject, TEndObject, TEndObject]\<rparr>"
    by (simp add: ex_message_defs ex_defs eval_defs)
  have d: "Message ex_child_desc [] \<in> set (message_graph ex_incomplete_message)"
    by (simp add: ex_incomplete_message_def)
  have e: "ex_required_field \<in> set (md_Fields (Descriptor (Message ex_child_desc [])))"
    by (simp add: ex_child_desc_def)
  have f: "fd_Cardinality ex_required_field = Required"
    by (simp add: ex_required_field_def ex_field_def)
  have g: "\<not> Has (Message ex_child_desc []) ex_required_field"
    by (simp add: Has_def)
  show ?thesis
    using a d e f g incomplete_message_returns_bytes [OF a b c d e f g]
    by (simp add: Bytes_def)
qed

section \<open>Sorted map entries\<close>

text \<open>Where \<open>less\<close> compares a key in a linear order and never panics, \<open>sort.Slice\<close> sorts by that key.\<close>

lemma insert_by_key:
  assumes "\<And>a b. a \<in> set (x # ys) \<Longrightarrow> b \<in> set (x # ys) \<Longrightarrow> lt a b = Inr (k a < k b)"
  shows "insert_by lt x ys = Inr (insort_key k x ys)"
  using assms
proof (induction ys)
  case Nil
  then show ?case by simp
next
  case (Cons y ys)
  have "lt y x = Inr (k y < k x)" using Cons.prems by simp
  moreover have "insert_by lt x ys = Inr (insort_key k x ys)"
  proof (rule Cons.IH)
    fix a b
    assume "a \<in> set (x # ys)" and "b \<in> set (x # ys)"
    then show "lt a b = Inr (k a < k b)" by (intro Cons.prems) auto
  qed
  ultimately show ?case by (auto simp: not_less)
qed

lemma sort_Slice_key:
  assumes "\<And>a b. a \<in> set xs \<Longrightarrow> b \<in> set xs \<Longrightarrow> lt a b = Inr (k a < k b)"
  shows "sort_Slice lt xs = Inr (sort_key k xs)"
  using assms
proof (induction xs)
  case Nil
  then show ?case by simp
next
  case (Cons x xs)
  have "sort_Slice lt xs = Inr (sort_key k xs)"
  proof (rule Cons.IH)
    fix a b
    assume "a \<in> set xs" and "b \<in> set xs"
    then show "lt a b = Inr (k a < k b)" by (intro Cons.prems) auto
  qed
  moreover have "insert_by lt x (sort_key k xs) = Inr (insort_key k x (sort_key k xs))"
    using Cons.prems by (intro insert_by_key) auto
  ultimately show ?case by simp
qed

lemma mapEntry_less_key:
  assumes "key_has_kind k (fst a)" and "key_has_kind k (fst b)"
  shows "mapEntry_less sp k a b = Inr (sortMap_key sp k (fst a) < sortMap_key sp k (fst b))"
  using assms
  by (cases "fst a"; cases "fst b")
    (auto simp: key_has_kind_def mapEntry_less_def sortMap_key_def)

lemma sortMap_key_less:
  assumes "key_has_kind k s" and "key_has_kind k t"
  shows "sortMap_key sp k s < sortMap_key sp k t \<longleftrightarrow> key_less s t"
  using assms
  by (cases s; cases t) (auto simp: key_has_kind_def sortMap_key_def)

lemma sortMap_key_inj:
  assumes "key_has_kind k s" and "key_has_kind k t" and "sortMap_key sp k s = sortMap_key sp k t"
  shows "s = t"
  using assms
  by (cases s; cases t) (auto simp: key_has_kind_def sortMap_key_def split: if_splits)

lemma sortMap_sort_key:
  assumes "\<forall>e \<in> set mmap. key_has_kind k (fst e)"
  shows "sortMap sp k mmap = Inr (sort_key (\<lambda>e. sortMap_key sp k (fst e)) mmap)"
  unfolding sortMap_def
  by (rule sort_Slice_key) (use assms in \<open>simp add: mapEntry_less_key\<close>)

lemma distinct_sortMap_keys:
  assumes "\<forall>e \<in> set mmap. key_has_kind k (fst e)" and "distinct (map fst mmap)"
  shows "distinct (map (\<lambda>e. sortMap_key sp k (fst e)) mmap)"
proof -
  have "inj_on (sortMap_key sp k) (set (map fst mmap))"
    using assms(1) by (auto intro!: inj_onI dest: sortMap_key_inj)
  then have "distinct (map (sortMap_key sp k) (map fst mmap))"
    using assms(2) by (subst distinct_map) blast
  then show ?thesis by (simp only: map_map comp_def)
qed

text \<open>
  Claim C4. The entries of a map field (keys of the map's key kind, pairwise distinct)
  are written in strictly ascending key order: by number for the integer key kinds
  (signed and unsigned), by lexicographic byte order for string keys. The order written
  does not depend on the order \<open>Range\<close> visits the entries in. Each entry is written as
  the name \<open>key.String()\<close> followed by the value as \<open>marshalSingular\<close> renders it.
\<close>

theorem map_entries_sorted:
  assumes "fd_MapKey fd = Some kd"
    and "\<forall>e \<in> set mmap. key_has_kind (fd_Kind kd) (fst e)"
    and "distinct (map fst mmap)"
  shows "\<exists>entries.
           sortMap (Sprint x) (fd_Kind kd) mmap = Inr entries \<and>
           mset entries = mset mmap \<and>
           sorted_wrt key_less (map fst entries) \<and>
           marshalMap x opts mmap fd enc =
             (case marshalMapEntries x opts entries fd (StartObject enc) of
                Inl f \<Rightarrow> Inl f
              | Inr enc' \<Rightarrow> Inr (EndObject enc')) \<and>
           (\<forall>mmap'. mset mmap' = mset mmap \<longrightarrow>
              sortMap (Sprint x) (fd_Kind kd) mmap' = Inr entries \<and>
              marshalMap x opts mmap' fd enc = marshalMap x opts mmap fd enc) \<and>
           (\<forall>vd e es enc0. fd_MapValue fd = Some vd \<longrightarrow>
              marshalMapEntries x opts (e # es) fd enc0 =
                (case checked (WriteName (accepts x) (val_String (Sprint x) (VScalar (fst e))) enc0) of
                   Inl f \<Rightarrow> Inl f
                 | Inr enc1 \<Rightarrow>
                     (case marshalSingular x opts (snd e) vd enc1 of
                        Inl f \<Rightarrow> Inl f
                      | Inr enc2 \<Rightarrow> marshalMapEntries x opts es fd enc2)))"
proof -
  define k where "k = (\<lambda>e :: Scalar \<times> Value. sortMap_key (Sprint x) (fd_Kind kd) (fst e))"
  define entries where "entries = sort_key k mmap"
  have srt: "sortMap (Sprint x) (fd_Kind kd) mmap = Inr entries"
    unfolding entries_def k_def using assms(2) by (rule sortMap_sort_key)
  have ms: "mset entries = mset mmap" by (simp add: entries_def)
  have dk: "distinct (map k mmap)"
    unfolding k_def using assms(2,3) by (rule distinct_sortMap_keys)
  have "mset (map k entries) = mset (map k mmap)" using ms by simp
  then have "distinct (map k entries)" using dk by (metis mset_eq_imp_distinct_iff)
  moreover have "sorted (map k entries)" by (simp add: entries_def)
  ultimately have "sorted_wrt (<) (map k entries)" by (simp add: strict_sorted_iff)
  then have "sorted_wrt (\<lambda>a b. k a < k b) entries" by (simp add: sorted_wrt_map)
  moreover have "\<And>a b. a \<in> set entries \<Longrightarrow> b \<in> set entries \<Longrightarrow> k a < k b
      \<Longrightarrow> key_less (fst a) (fst b)"
    using assms(2) by (simp add: entries_def k_def sortMap_key_less)
  ultimately have "sorted_wrt (\<lambda>a b. key_less (fst a) (fst b)) entries"
    by (rule sorted_wrt_mono_rel [rotated])
  then have sw: "sorted_wrt key_less (map fst entries)" by (simp add: sorted_wrt_map)
  have mm: "marshalMap x opts mmap fd enc =
             (case marshalMapEntries x opts entries fd (StartObject enc) of
                Inl f \<Rightarrow> Inl f
              | Inr enc' \<Rightarrow> Inr (EndObject enc'))"
    using assms(1) srt by (simp add: marshalMap.simps)
  have perm: "sortMap (Sprint x) (fd_Kind kd) mmap' = Inr entries \<and>
              marshalMap x opts mmap' fd enc = marshalMap x opts mmap fd enc"
    if p: "mset mmap' = mset mmap" for mmap'
  proof -
    have st: "set mmap' = set mmap" using p by (rule mset_eq_setD)
    have "sortMap (Sprint x) (fd_Kind kd) mmap' = Inr (sort_key k mmap')"
      unfolding k_def using assms(2) st by (intro sortMap_sort_key) simp
    moreover have "inj_on k (set mmap')" using dk st by (simp add: distinct_map)
    then have "sort_key k mmap' = sort_key k mmap" using p by (rule sort_key_eq_sort_key [rotated])
    ultimately have "sortMap (Sprint x) (fd_Kind kd) mmap' = Inr entries"
      by (simp add: entries_def)
    then show ?thesis using assms(1) srt by (simp add: marshalMap.simps)
  qed
  have loop: "\<forall>vd e es enc0. fd_MapValue fd = Some vd \<longrightarrow>
              marshalMapEntries x opts (e # es) fd enc0 =
                (case checked (WriteName (accepts x) (val_String (Sprint x) (VScalar (fst e))) enc0) of
                   Inl f \<Rightarrow> Inl f
                 | Inr enc1 \<Rightarrow>
                     (case marshalSingular x opts (snd e) vd enc1 of
                        Inl f \<Rightarrow> Inl f
                      | Inr enc2 \<Rightarrow> marshalMapEntries x opts es fd enc2))"
    by (intro allI impI) (simp add: marshalMapEntries.simps split: sum.splits)
  have perm': "\<forall>mmap'. mset mmap' = mset mmap \<longrightarrow>
              sortMap (Sprint x) (fd_Kind kd) mmap' = Inr entries \<and>
              marshalMap x opts mmap' fd enc = marshalMap x opts mmap fd enc"
    using perm by blast
  show ?thesis
    by (rule exI [of _ entries]) (intro conjI srt ms sw mm perm' loop)
qed

lemma ex_sortMap:
  "sortMap sp Sint32Kind
     [(SInt32 10, VScalar (SString ''a'')), (SInt32 2, VScalar (SString ''b'')),
      (SInt32 (- 1), VScalar (SString ''c''))] =
   Inr [(SInt32 (- 1), VScalar (SString ''c'')), (SInt32 2, VScalar (SString ''b'')),
        (SInt32 10, VScalar (SString ''a''))]"
  by (simp add: sortMap_def mapEntry_less_def)

theorem map_entries_sorted_witness:
  "fd_MapKey (ex_map_field Sint32Kind) = Some (ex_field ''key'' ''key'' Sint32Kind Optional Proto3 None) \<and>
   key_has_kind Sint32Kind (SInt32 10) \<and> key_has_kind Sint32Kind (SInt32 2) \<and>
   key_has_kind Sint32Kind (SInt32 (- 1)) \<and>
   marshalMap ex_externals ex_options
     [(SInt32 10, VScalar (SString ''a'')), (SInt32 2, VScalar (SString ''b'')),
      (SInt32 (- 1), VScalar (SString ''c''))]
     (ex_map_field Sint32Kind) ex_encoder =
     Inr \<lparr>indent = [],
          out = [TStartObject, TName ''-1'', TString ''c'', TName ''2'', TString ''b'',
                 TName ''10'', TString ''a'', TEndObject]\<rparr> \<and>
   marshalMap ex_externals ex_options
     [(SInt32 (- 1), VScalar (SString ''c'')), (SInt32 10, VScalar (SString ''a'')),
      (SInt32 2, VScalar (SString ''b''))]
     (ex_map_field Sint32Kind) ex_encoder =
     marshalMap ex_externals ex_options
     [(SInt32 10, VScalar (SString ''a'')), (SInt32 2, VScalar (SString ''b'')),
      (SInt32 (- 1), VScalar (SString ''c''))]
     (ex_map_field Sint32Kind) ex_encoder"
proof -
  let ?m = "[(SInt32 10, VScalar (SString ''a'')), (SInt32 2, VScalar (SString ''b'')),
      (SInt32 (- 1), VScalar (SString ''c''))]"
  let ?m' = "[(SInt32 (- 1), VScalar (SString ''c'')), (SInt32 10, VScalar (SString ''a'')),
      (SInt32 2, VScalar (SString ''b''))]"
  have a: "fd_MapKey (ex_map_field Sint32Kind) = Some (ex_field ''key'' ''key'' Sint32Kind Optional Proto3 None)"
    by (simp add: ex_map_field_def)
  have b: "\<forall>e \<in> set ?m. key_has_kind (fd_Kind (ex_field ''key'' ''key'' Sint32Kind Optional Proto3 None)) (fst e)"
    by (simp add: key_has_kind_def ex_field_def)
  have c: "distinct (map fst ?m)" by simp
  have e: "marshalMap ex_externals ex_options ?m (ex_map_field Sint32Kind) ex_encoder =
     Inr \<lparr>indent = [],
          out = [TStartObject, TName ''-1'', TString ''c'', TName ''2'', TString ''b'',
                 TName ''10'', TString ''a'', TEndObject]\<rparr>"
    by (simp add: ex_map_field_def ex_defs marshal_simps writer_defs emit_def IsValid_def ex_sortMap
        show_int_def digits.simps digit_char_def)
  have p: "mset ?m' = mset ?m" by simp
  have f: "marshalMap ex_externals ex_options ?m' (ex_map_field Sint32Kind) ex_encoder =
     marshalMap ex_externals ex_options ?m (ex_map_field Sint32Kind) ex_encoder"
    using map_entries_sorted [OF a b c, of ex_externals ex_options ex_encoder] p
    by (elim exE conjE) (erule allE [of _ ?m'], blast)
  show ?thesis using a b e f by (simp add: ex_field_def)
qed

section \<open>Determinism\<close>

lemma insort_key_rel:
  assumes "list_all2 R xs ys" and "R x y" and "\<And>a b. R a b \<Longrightarrow> k a = k' b"
  shows "list_all2 R (insort_key k x xs) (insort_key k' y ys)"
  using assms(1)
proof (induction rule: list_all2_induct)
  case Nil
  then show ?case using assms(2) by simp
next
  case (Cons a as b bs)
  have "k x = k' y" "k a = k' b" using assms(2,3) Cons.hyps by auto
  then show ?case using Cons assms(2) by simp
qed

lemma sort_key_rel:
  assumes "list_all2 R xs ys" and "\<And>a b. R a b \<Longrightarrow> k a = k' b"
  shows "list_all2 R (sort_key k xs) (sort_key k' ys)"
  using assms(1)
proof (induction rule: list_all2_induct)
  case Nil
  then show ?case by simp
next
  case (Cons a as b bs)
  then show ?case using assms(2) by (simp add: sort_key_simps insort_key_rel)
qed

lemma list_all2_map_key:
  assumes "list_all2 R xs ys" and "\<And>a b. R a b \<Longrightarrow> k a = k' b"
  shows "map k xs = map k' ys"
  using assms(1) by (induction rule: list_all2_induct) (auto simp: assms(2))

lemma sorted_related:
  assumes "list_all2 R xs zs" and "mset zs = mset ys"
    and "\<And>a b. R a b \<Longrightarrow> k a = k b" and "distinct (map k xs)"
  shows "list_all2 R (sort_key k xs) (sort_key k ys)"
proof -
  have "map k xs = map k zs" using assms(1) by (rule list_all2_map_key) (rule assms(3))
  then have "map k zs = map k xs" by simp
  then have "distinct (map k zs)" using assms(4) by simp
  then have "inj_on k (set zs)" by (simp add: distinct_map)
  then have "sort_key k zs = sort_key k ys"
    using assms(2) by (rule sort_key_eq_sort_key [rotated])
  moreover have "list_all2 R (sort_key k xs) (sort_key k zs)"
    using assms(1) by (rule sort_key_rel) (rule assms(3))
  ultimately show ?thesis by simp
qed

lemma same_message_Descriptor: "same_message m m' \<Longrightarrow> Descriptor m = Descriptor m'"
  by (cases m) (auto elim: same_MessageE)

lemma same_message_Has:
  assumes "same_message m m'"
  shows "Has m fd = Has m' fd"
proof (cases m)
  case (Message d es)
  then obtain es' zs where m': "m' = Message d es'"
    and r: "list_all2 (\<lambda>a b. fst a = fst b \<and> same_value (snd a) (snd b)) es zs"
    and p: "mset zs = mset es'"
    using assms by (auto elim: same_MessageE)
  have "map fst es = map fst zs" using r by (rule list_all2_map_key) simp
  then have "fst ` set es = fst ` set zs" by (metis set_map)
  moreover have "set zs = set es'" using p by (rule mset_eq_setD)
  ultimately show ?thesis
    using Message m' by (simp add: Has_def map_of_eq_None_iff)
qed

lemma map_of_related:
  assumes "list_all2 (\<lambda>a b. fst a = fst b \<and> R (snd a) (snd b)) es zs" and "map_of es k = Some v"
  shows "\<exists>v'. map_of zs k = Some v' \<and> R v v'"
  using assms by (induction rule: list_all2_induct) (auto split: if_splits)

lemma same_message_Get:
  assumes "wf_message m" and "same_message m m'" and "Has m fd"
  shows "same_value (Get m fd) (Get m' fd) \<and> wf_value fd (Get m fd)"
proof (cases m)
  case (Message d es)
  then obtain es' zs where m': "m' = Message d es'"
    and r: "list_all2 (\<lambda>a b. fst a = fst b \<and> same_value (snd a) (snd b)) es zs"
    and p: "mset zs = mset es'"
    using assms(2) by (auto elim: same_MessageE)
  obtain v where v: "map_of es fd = Some v"
    using assms(3) Message by (auto simp: Has_def)
  then have "(fd, v) \<in> set es" by (rule map_of_SomeD)
  then have wf: "wf_value fd v" using assms(1) Message by auto
  obtain v' where v': "map_of zs fd = Some v'" and s: "same_value v v'"
    using map_of_related [OF r v] by blast
  have "map fst es = map fst zs" using r by (rule list_all2_map_key) simp
  then have dz: "distinct (map fst zs)" using assms(1) Message by simp
  have "mset (map fst es') = mset (map fst zs)" using p by simp
  then have de: "distinct (map fst es')" using dz by (metis mset_eq_imp_distinct_iff)
  have "set zs = set es'" using p by (rule mset_eq_setD)
  then have "map_of zs = map_of es'" using dz de by (simp add: map_of_inject_set)
  then show ?thesis using Message m' v v' s wf by (simp add: Get_def)
qed

lemma list_all2_map_filter:
  assumes "list_all2 R xs ys" and "\<And>a b. R a b \<Longrightarrow> P a = P b" and "\<And>a b. R a b \<Longrightarrow> S (f a) (f b)"
  shows "list_all2 S (map f (filter P xs)) (map f (filter P ys))"
  using assms(1)
proof (induction rule: list_all2_induct)
  case Nil
  then show ?case by simp
next
  case (Cons a as b bs)
  then show ?case using assms(2) [of a b] assms(3) [of a b] by simp
qed

lemma same_message_extensions:
  assumes "wf_message m" and "same_message m m'"
  shows "list_all2 (\<lambda>a b. fst a = fst b \<and> snd (snd a) = snd (snd b) \<and> same_value (fst (snd a)) (fst (snd b)))
           (sort_key fst (extensionEntries m)) (sort_key fst (extensionEntries m'))"
proof (cases m)
  case (Message d es)
  then obtain es' zs where m': "m' = Message d es'"
    and r: "list_all2 (\<lambda>a b. fst a = fst b \<and> same_value (snd a) (snd b)) es zs"
    and p: "mset zs = mset es'"
    using assms(2) by (auto elim: same_MessageE)
  let ?S = "\<lambda>a b. fst a = fst b \<and> snd (snd a) = snd (snd b) \<and> same_value (fst (snd a)) (fst (snd b))"
  have 1: "list_all2 ?S (extensionEntries (Message d es)) (extensionEntries (Message d zs))"
    unfolding extensionEntries_def Message.sel
    by (rule list_all2_map_filter [OF r]) auto
  have 2: "mset (extensionEntries (Message d zs)) = mset (extensionEntries (Message d es'))"
    using p by (simp add: extensionEntries_def)
  have 3: "distinct (map fst (extensionEntries (Message d es)))"
    using assms(1) Message by simp
  show ?thesis
    unfolding Message m' by (rule sorted_related [OF 1 2 _ 3]) simp
qed

lemma wf_message_extensions:
  assumes "wf_message m" and "e \<in> set (extensionEntries m)"
  shows "wf_value (snd (snd e)) (fst (snd e))"
  using assms by (cases m) (auto simp: extensionEntries_def)

lemma sort_extensions:
  "sort_Slice (\<lambda>a b. Inr (fst a < fst b)) es = Inr (sort_key fst es)"
  by (rule sort_Slice_key) simp

lemma same_value_IsValid: "same_value v v' \<Longrightarrow> IsValid v = IsValid v'"
  by (cases v) (auto simp: IsValid_def elim: same_VInvalidE same_VScalarE same_VMessageE same_VListE same_VMapE)

lemma wf_value_singular: "\<not> fd_IsList fd \<Longrightarrow> \<not> fd_IsMap fd \<Longrightarrow> wf_value fd v \<Longrightarrow> wf_singular fd v"
  by (cases v) auto

lemma wf_value_IsList:
  "fd_IsList fd \<Longrightarrow> wf_value fd v \<Longrightarrow> \<exists>xs. v = VList xs \<and> (\<forall>x \<in> set xs. wf_singular fd x)"
  by (cases v) auto

lemma wf_value_IsMap:
  "\<not> fd_IsList fd \<Longrightarrow> fd_IsMap fd \<Longrightarrow> wf_value fd v \<Longrightarrow> \<exists>es. v = VMap es"
  by (cases v) auto

lemma sortMap_same:
  assumes "wf_value fd (VMap mmap)" and "same_value (VMap mmap) (VMap mmap')"
    and "fd_MapKey fd = Some kd"
  shows "\<exists>entries entries'.
           sortMap sp (fd_Kind kd) mmap = Inr entries \<and> sortMap sp (fd_Kind kd) mmap' = Inr entries' \<and>
           set entries = set mmap \<and>
           list_all2 (\<lambda>a b. fst a = fst b \<and> same_value (snd a) (snd b)) entries entries'"
proof -
  let ?R = "\<lambda>a b :: Scalar \<times> Value. fst a = fst b \<and> same_value (snd a) (snd b)"
  let ?k = "\<lambda>e :: Scalar \<times> Value. sortMap_key sp (fd_Kind kd) (fst e)"
  obtain zs where r: "list_all2 ?R mmap zs" and p: "mset zs = mset mmap'"
    using assms(2) by (auto elim: same_VMapE)
  have typed: "\<forall>e \<in> set mmap. key_has_kind (fd_Kind kd) (fst e)"
    and dist: "distinct (map fst mmap)"
    using assms(1,3) by auto
  have keys: "map fst mmap = map fst zs" using r by (rule list_all2_map_key) simp
  have "fst ` set mmap' = fst ` set mmap"
    using keys mset_eq_setD [OF p] by (metis set_map)
  then have typed': "\<forall>e \<in> set mmap'. key_has_kind (fd_Kind kd) (fst e)"
    using typed by (metis (no_types, lifting) imageE imageI)
  have 1: "sortMap sp (fd_Kind kd) mmap = Inr (sort_key ?k mmap)"
    using typed by (rule sortMap_sort_key)
  have 2: "sortMap sp (fd_Kind kd) mmap' = Inr (sort_key ?k mmap')"
    using typed' by (rule sortMap_sort_key)
  have 3: "distinct (map ?k mmap)" using typed dist by (rule distinct_sortMap_keys)
  have 4: "list_all2 ?R (sort_key ?k mmap) (sort_key ?k mmap')"
    by (rule sorted_related [OF r p _ 3]) simp
  show ?thesis using 1 2 4 by (intro exI [of _ "sort_key ?k mmap"] exI [of _ "sort_key ?k mmap'"]) simp
qed

lemma marshalKnownFields_Cons:
  "marshalKnownFields x opts m (fd # fds) enc =
     (if field_skipped opts m fd then marshalKnownFields x opts m fds enc
      else case field_name opts fd of
             Inl f \<Rightarrow> Inl f
           | Inr name \<Rightarrow>
               (case checked (WriteName (accepts x) name enc) of
                  Inl f \<Rightarrow> Inl f
                | Inr enc1 \<Rightarrow>
                    (case marshalValue x opts (field_value m fd) fd enc1 of
                       Inl f \<Rightarrow> Inl f
                     | Inr enc2 \<Rightarrow> marshalKnownFields x opts m fds enc2)))"
  unfolding field_skipped_def field_name_def field_value_def
  by (rule marshalKnownFields.simps)

lemma marshal_same:
  shows "hook_respects x \<Longrightarrow> wf_message m \<Longrightarrow> same_message m m' \<Longrightarrow>
           marshalMessage x opts m enc = marshalMessage x opts m' enc"
    and "hook_respects x \<Longrightarrow> wf_message m \<Longrightarrow> same_message m m' \<Longrightarrow>
           marshalFields x opts m enc = marshalFields x opts m' enc"
    and "hook_respects x \<Longrightarrow> wf_message m \<Longrightarrow> same_message m m' \<Longrightarrow>
           marshalKnownFields x opts m fds enc = marshalKnownFields x opts m' fds enc"
    and "hook_respects x \<Longrightarrow> wf_value fd val \<Longrightarrow> same_value val val' \<Longrightarrow>
           marshalValue x opts val fd enc = marshalValue x opts val' fd enc"
    and "hook_respects x \<Longrightarrow> wf_singular fd val \<Longrightarrow> same_value val val' \<Longrightarrow>
           marshalSingular x opts val fd enc = marshalSingular x opts val' fd enc"
    and "hook_respects x \<Longrightarrow> \<forall>v \<in> set list. wf_singular fd v \<Longrightarrow> list_all2 same_value list list' \<Longrightarrow>
           marshalList x opts list fd enc = marshalList x opts list' fd enc"
    and "hook_respects x \<Longrightarrow> \<forall>v \<in> set list. wf_singular fd v \<Longrightarrow> list_all2 same_value list list' \<Longrightarrow>
           marshalListItems x opts list fd enc = marshalListItems x opts list' fd enc"
    and "hook_respects x \<Longrightarrow> wf_value fd (VMap mmap) \<Longrightarrow> same_value (VMap mmap) (VMap mmap') \<Longrightarrow>
           marshalMap x opts mmap fd enc = marshalMap x opts mmap' fd enc"
    and "hook_respects x \<Longrightarrow>
           \<forall>vd. fd_MapValue fd = Some vd \<longrightarrow> (\<forall>e \<in> set entries. wf_singular vd (snd e)) \<Longrightarrow>
           list_all2 (\<lambda>a b. fst a = fst b \<and> same_value (snd a) (snd b)) entries entries' \<Longrightarrow>
           marshalMapEntries x opts entries fd enc = marshalMapEntries x opts entries' fd enc"
    and "hook_respects x \<Longrightarrow> wf_message m \<Longrightarrow> same_message m m' \<Longrightarrow>
           marshalExtensions x opts m enc = marshalExtensions x opts m' enc"
    and "hook_respects x \<Longrightarrow> \<forall>e \<in> set es. wf_value (snd (snd e)) (fst (snd e)) \<Longrightarrow>
           list_all2 (\<lambda>a b. fst a = fst b \<and> snd (snd a) = snd (snd b) \<and>
                            same_value (fst (snd a)) (fst (snd b))) es es' \<Longrightarrow>
           marshalExtensionEntries x opts es enc = marshalExtensionEntries x opts es' enc"
proof (induction x opts m enc and x opts m enc and x opts m fds enc and x opts val fd enc
    and x opts val fd enc and x opts list fd enc and x opts list fd enc and x opts mmap fd enc
    and x opts entries fd enc and x opts m enc and x opts es enc
    arbitrary: m' and m' and m' and val' and val' and list' and list' and mmap' and entries'
      and m' and es'
    rule: marshalMessage_marshalFields_marshalKnownFields_marshalValue_marshalSingular_marshalList_marshalListItems_marshalMap_marshalMapEntries_marshalExtensions_marshalExtensionEntries.induct)
  case (1 x opts m enc)
  have d: "Descriptor m' = Descriptor m" using 1 by (simp add: same_message_Descriptor)
  show ?case
  proof (cases "isCustomType x (md_FullName (Descriptor m))")
    case True
    then show ?thesis
      using 1 d by (simp add: marshalMessage.simps hook_respects_def)
  next
    case False
    then have "marshalFields x opts m (StartObject enc) = marshalFields x opts m' (StartObject enc)"
      using 1 by blast
    then show ?thesis using False d by (simp add: marshalMessage.simps)
  qed
next
  case (2 x opts m enc)
  have d: "Descriptor m' = Descriptor m" using 2 by (simp add: same_message_Descriptor)
  show ?case
  proof (cases "\<not> ProtoLegacy x \<and> md_IsMessageSet (Descriptor m)")
    case True
    then show ?thesis using d by (simp add: marshalFields.simps)
  next
    case False
    have k: "marshalKnownFields x opts m (md_Fields (Descriptor m)) enc =
             marshalKnownFields x opts m' (md_Fields (Descriptor m)) enc"
      using 2 False by blast
    show ?thesis
    proof (cases "marshalKnownFields x opts m (md_Fields (Descriptor m)) enc")
      case (Inl f)
      then have "marshalKnownFields x opts m' (md_Fields (Descriptor m)) enc = Inl f"
        using k by simp
      then show ?thesis using False d Inl by (auto simp: marshalFields.simps)
    next
      case (Inr b)
      then have k': "marshalKnownFields x opts m' (md_Fields (Descriptor m)) enc = Inr b"
        using k by simp
      have "marshalExtensions x opts m b = marshalExtensions x opts m' b"
        using 2 False Inr by blast
      then show ?thesis using False d Inr k' by (auto simp: marshalFields.simps)
    qed
  qed
next
  case (3 x opts m enc)
  show ?case by simp
next
  case (4 x opts m fd fds enc)
  have h: "Has m' fd = Has m fd" using 4 by (simp add: same_message_Has)
  have sk: "field_skipped opts m' fd = field_skipped opts m fd"
    by (simp add: field_skipped_def h)
  have ih1: "field_skipped opts m fd \<Longrightarrow>
      marshalKnownFields x opts m fds enc = marshalKnownFields x opts m' fds enc"
    using 4(1) [of m'] 4(4,5,6) unfolding field_skipped_def by blast
  have ih2: "\<not> field_skipped opts m fd \<Longrightarrow> field_name opts fd = Inr name \<Longrightarrow>
      checked (WriteName (accepts x) name enc) = Inr enc1 \<Longrightarrow>
      wf_value fd (field_value m fd) \<Longrightarrow> same_value (field_value m fd) v' \<Longrightarrow>
      marshalValue x opts (field_value m fd) fd enc1 = marshalValue x opts v' fd enc1"
    for name enc1 v'
    using 4(2) [of name enc1 v'] 4(4) unfolding field_skipped_def field_name_def field_value_def
    by blast
  have ih3: "\<not> field_skipped opts m fd \<Longrightarrow> field_name opts fd = Inr name \<Longrightarrow>
      checked (WriteName (accepts x) name enc) = Inr enc1 \<Longrightarrow>
      marshalValue x opts (field_value m fd) fd enc1 = Inr enc2 \<Longrightarrow>
      marshalKnownFields x opts m fds enc2 = marshalKnownFields x opts m' fds enc2"
    for name enc1 enc2
    using 4(3) [of name enc1 enc2 m'] 4(4,5,6)
    unfolding field_skipped_def field_name_def field_value_def by blast
  show ?case
  proof (cases "field_skipped opts m fd")
    case True
    then show ?thesis using sk ih1 by (simp add: marshalKnownFields_Cons)
  next
    case False
    show ?thesis
    proof (cases "field_name opts fd")
      case (Inl f)
      then show ?thesis using False sk by (simp add: marshalKnownFields_Cons)
    next
      case nm: (Inr name)
      show ?thesis
      proof (cases "checked (WriteName (accepts x) name enc)")
        case (Inl f)
        then show ?thesis using False sk nm by (simp add: marshalKnownFields_Cons)
      next
        case e1: (Inr enc1)
        have v: "marshalValue x opts (field_value m fd) fd enc1 =
                 marshalValue x opts (field_value m' fd) fd enc1"
        proof (cases "Has m fd")
          case True
          then have "same_value (Get m fd) (Get m' fd)" "wf_value fd (Get m fd)"
            using 4(5,6) same_message_Get by blast+
          then have "same_value (field_value m fd) (field_value m' fd)"
            "wf_value fd (field_value m fd)"
            using True h by (simp_all add: field_value_def)
          then show ?thesis using ih2 [OF False nm e1] by blast
        next
          case nh: False
          then have "Get m fd = unset_value fd" "Get m' fd = unset_value fd"
            using h by (simp_all add: Get_def Has_def)
          then have "field_value m' fd = field_value m fd"
            using h by (auto simp: field_value_def)
          then show ?thesis by simp
        qed
        show ?thesis
        proof (cases "marshalValue x opts (field_value m fd) fd enc1")
          case (Inl f)
          then have "marshalValue x opts (field_value m' fd) fd enc1 = Inl f" using v by simp
          then show ?thesis
            using False sk nm e1 Inl by (simp add: marshalKnownFields_Cons)
        next
          case e2: (Inr enc2)
          then have e2': "marshalValue x opts (field_value m' fd) fd enc1 = Inr enc2" using v by simp
          have "marshalKnownFields x opts m fds enc2 = marshalKnownFields x opts m' fds enc2"
            using ih3 [OF False nm e1 e2] .
          then show ?thesis
            using False sk nm e1 e2 e2' by (simp add: marshalKnownFields_Cons)
        qed
      qed
    qed
  qed
next
  case (5 x opts val fd enc)
  show ?case
  proof (cases "fd_IsList fd")
    case True
    then obtain xs where xs: "val = VList xs" "\<forall>v \<in> set xs. wf_singular fd v"
      using 5 wf_value_IsList by blast
    then obtain ys where ys: "val' = VList ys" "list_all2 same_value xs ys"
      using 5 by (auto elim: same_VListE)
    have "marshalList x opts xs fd enc = marshalList x opts ys fd enc"
      using 5(1) [OF True, of xs] xs ys 5(4) by simp
    then show ?thesis using True xs ys by (simp add: marshalValue.simps)
  next
    case nl: False
    show ?thesis
    proof (cases "fd_IsMap fd")
      case True
      then obtain es where es: "val = VMap es" using 5 nl wf_value_IsMap by blast
      then obtain es' where es': "val' = VMap es'"
        using 5 by (auto elim: same_VMapE)
      have "marshalMap x opts es fd enc = marshalMap x opts es' fd enc"
        using 5(2) [OF nl True, of es] es es' 5(4,5,6) by simp
      then show ?thesis using nl True es es' by (simp add: marshalValue.simps)
    next
      case False
      then have "wf_singular fd val" using 5 nl wf_value_singular by blast
      then have "marshalSingular x opts val fd enc = marshalSingular x opts val' fd enc"
        using 5(3) [OF nl False] 5(4,6) by simp
      then show ?thesis using nl False by (simp add: marshalValue.simps)
    qed
  qed
next
  case (6 x opts val fd enc)
  show ?case
  proof (cases val)
    case VInvalid
    then show ?thesis using 6 by (auto elim: same_VInvalidE)
  next
    case (VScalar s)
    then show ?thesis using 6 by (auto elim: same_VScalarE)
  next
    case (VMessage m)
    then obtain m' where m': "val' = VMessage m'" "same_message m m'"
      using 6 by (auto elim: same_VMessageE)
    have k: "fd_Kind fd = MessageKind \<or> fd_Kind fd = GroupKind" and wf: "wf_message m"
      using 6 VMessage by auto
    have v: "IsValid val" "val_Message val = Some m" using VMessage by (simp_all add: IsValid_def)
    have "marshalMessage x opts m enc = marshalMessage x opts m' enc"
      using k
    proof
      assume "fd_Kind fd = MessageKind"
      then show ?thesis using 6(1) [of m m'] v 6(3) wf m' by simp
    next
      assume "fd_Kind fd = GroupKind"
      then show ?thesis using 6(2) [of m m'] v 6(3) wf m' by simp
    qed
    then show ?thesis
      using k VMessage m' by (auto simp: marshalSingular.simps IsValid_def)
  next
    case (VList xs)
    then show ?thesis using 6 by simp
  next
    case (VMap es)
    then show ?thesis using 6 by simp
  qed
next
  case (7 x opts list fd enc)
  then have "marshalListItems x opts list fd (StartArray enc) =
             marshalListItems x opts list' fd (StartArray enc)"
    by blast
  then show ?case by (simp add: marshalList.simps)
next
  case (8 x opts fd enc)
  then show ?case by simp
next
  case (9 x opts item items fd enc)
  then obtain item' items' where l: "list' = item' # items'" "same_value item item'"
      "list_all2 same_value items items'"
    by (auto simp: list_all2_Cons1)
  have i: "marshalSingular x opts item fd enc = marshalSingular x opts item' fd enc"
    using 9(1) [of item'] 9(3,4) l by simp
  show ?case
  proof (cases "marshalSingular x opts item fd enc")
    case (Inl f)
    then have "marshalSingular x opts item' fd enc = Inl f" using i by simp
    then show ?thesis using l Inl by simp
  next
    case (Inr enc')
    then have i': "marshalSingular x opts item' fd enc = Inr enc'" using i by simp
    have "marshalListItems x opts items fd enc' = marshalListItems x opts items' fd enc'"
      using 9(2) [of enc' items'] 9(3,4) l Inr by simp
    then show ?thesis using l Inr i' by simp
  qed
next
  case (10 x opts mmap fd enc)
  show ?case
  proof (cases "fd_MapKey fd")
    case None
    then show ?thesis by (simp add: marshalMap.simps)
  next
    case (Some kd)
    obtain entries entries' where
      s: "sortMap (Sprint x) (fd_Kind kd) mmap = Inr entries"
        "sortMap (Sprint x) (fd_Kind kd) mmap' = Inr entries'"
        "set entries = set mmap"
        "list_all2 (\<lambda>a b. fst a = fst b \<and> same_value (snd a) (snd b)) entries entries'"
      using sortMap_same [OF 10(3,4) Some] by blast
    have wf: "\<forall>vd. fd_MapValue fd = Some vd \<longrightarrow> (\<forall>e \<in> set entries. wf_singular vd (snd e))"
      using 10(3) s(3) by (auto split: option.splits)
    have "marshalMapEntries x opts entries fd (StartObject enc) =
          marshalMapEntries x opts entries' fd (StartObject enc)"
      using 10(1) [OF Some s(1) 10(2) wf s(4)] .
    then show ?thesis using Some s by (simp add: marshalMap.simps)
  qed
next
  case (11 x opts fd enc)
  then show ?case by simp
next
  case (12 x opts entry entries fd enc)
  then obtain e' es' where l: "entries' = e' # es'" "fst entry = fst e'"
      "same_value (snd entry) (snd e')"
      "list_all2 (\<lambda>a b. fst a = fst b \<and> same_value (snd a) (snd b)) entries es'"
    by (auto simp: list_all2_Cons1)
  let ?w = "checked (WriteName (accepts x) (val_String (Sprint x) (VScalar (fst entry))) enc)"
  show ?case
  proof (cases ?w)
    case (Inl f)
    then show ?thesis using l by (simp add: marshalMapEntries.simps)
  next
    case e1: (Inr enc1)
    let ?r = "\<lambda>v. case fd_MapValue fd of
                   None \<Rightarrow> if IsValid v then Inl Panic else Inr (WriteNull enc1)
                 | Some vd \<Rightarrow> marshalSingular x opts v vd enc1"
    have r: "?r (snd entry) = ?r (snd e')"
    proof (cases "fd_MapValue fd")
      case None
      then show ?thesis using same_value_IsValid [OF l(3)] by simp
    next
      case (Some vd)
      then have "wf_singular vd (snd entry)" using 12(4) by simp
      then have "marshalSingular x opts (snd entry) vd enc1 = marshalSingular x opts (snd e') vd enc1"
        using 12(1) [OF e1 Some 12(3)] l(3) by simp
      then show ?thesis using Some by simp
    qed
    show ?thesis
    proof (cases "?r (snd entry)")
      case (Inl f)
      then have "?r (snd e') = Inl f" using r by simp
      then show ?thesis using l(1,2) e1 Inl by (simp add: marshalMapEntries.simps)
    next
      case e2: (Inr enc2)
      then have e2': "?r (snd e') = Inr enc2" using r by simp
      have "marshalMapEntries x opts entries fd enc2 = marshalMapEntries x opts es' fd enc2"
        using 12(2) [OF e1 e2 12(3)] 12(4) l(4) by simp
      then show ?thesis using l(1,2) e1 e2 e2' by (simp add: marshalMapEntries.simps)
    qed
  qed
next
  case (13 x opts m enc)
  let ?es = "sort_key fst (extensionEntries m)"
  have "list_all2 (\<lambda>a b. fst a = fst b \<and> snd (snd a) = snd (snd b) \<and>
                            same_value (fst (snd a)) (fst (snd b)))
          ?es (sort_key fst (extensionEntries m'))"
    using 13 by (simp add: same_message_extensions)
  moreover have "\<forall>e \<in> set ?es. wf_value (snd (snd e)) (fst (snd e))"
    using 13 wf_message_extensions by simp
  ultimately have "marshalExtensionEntries x opts ?es enc =
      marshalExtensionEntries x opts (sort_key fst (extensionEntries m')) enc"
    using 13(1) [OF sort_extensions 13(2)] by blast
  then show ?case by (simp add: marshalExtensions.simps sort_extensions)
next
  case (14 x opts enc)
  then show ?case by simp
next
  case (15 x opts entry entries enc)
  then obtain e' es'' where l: "es' = e' # es''" "fst entry = fst e'" "snd (snd entry) = snd (snd e')"
      "same_value (fst (snd entry)) (fst (snd e'))"
      "list_all2 (\<lambda>a b. fst a = fst b \<and> snd (snd a) = snd (snd b) \<and>
                            same_value (fst (snd a)) (fst (snd b))) entries es''"
    by (auto simp: list_all2_Cons1)
  let ?w = "checked (WriteName (accepts x) (''['' @ fst entry @ '']'') enc)"
  show ?case
  proof (cases ?w)
    case (Inl f)
    then show ?thesis using l by (simp add: marshalExtensionEntries.simps)
  next
    case e1: (Inr enc1)
    have v: "marshalValue x opts (fst (snd entry)) (snd (snd entry)) enc1 =
             marshalValue x opts (fst (snd e')) (snd (snd entry)) enc1"
      using 15(1) [OF e1 15(3)] 15(4) l(4) by simp
    show ?thesis
    proof (cases "marshalValue x opts (fst (snd entry)) (snd (snd entry)) enc1")
      case (Inl f)
      then have "marshalValue x opts (fst (snd e')) (snd (snd entry)) enc1 = Inl f" using v by simp
      then show ?thesis using l(1,2,3) e1 Inl by (simp add: marshalExtensionEntries.simps)
    next
      case e2: (Inr enc2)
      then have e2': "marshalValue x opts (fst (snd e')) (snd (snd entry)) enc1 = Inr enc2"
        using v by simp
      have "marshalExtensionEntries x opts entries enc2 = marshalExtensionEntries x opts es'' enc2"
        using 15(2) [OF e1 e2 15(3)] 15(4) l(5) by simp
      then show ?thesis using l(1,2,3) e1 e2 e2' by (simp add: marshalExtensionEntries.simps)
    qed
  qed
qed

lemma list_all2_Ball_eq:
  assumes "list_all2 (\<lambda>a b. P a = Q b) xs ys"
  shows "(\<forall>a \<in> set xs. P a) = (\<forall>b \<in> set ys. Q b)"
  using assms by (induction rule: list_all2_induct) auto

lemma unset_required_same:
  assumes "same_message m m'"
  shows "unset_required m = unset_required m'"
  using same_message_Has [OF assms] same_message_Descriptor [OF assms]
  by (simp add: unset_required_def)

lemma list_all_message_graph:
  "list_all Q (message_graph (Message d es)) =
     (Q (Message d es) \<and> (\<forall>e \<in> set es. list_all Q (value_messages (snd e))))"
  by (auto simp: list_all_iff)

lemma same_initialized:
  "same_value v v' \<Longrightarrow>
     list_all (\<lambda>m. unset_required m = []) (value_messages v) =
     list_all (\<lambda>m. unset_required m = []) (value_messages v')"
  "same_message m m' \<Longrightarrow>
     list_all (\<lambda>m. unset_required m = []) (message_graph m) =
     list_all (\<lambda>m. unset_required m = []) (message_graph m')"
proof (induction rule: same_value_same_message.inducts)
  case same_invalid
  show ?case by simp
next
  case (same_scalar s)
  show ?case by simp
next
  case (same_nested m m')
  then show ?case by simp
next
  case (same_list xs ys)
  let ?L = "\<lambda>v. list_all (\<lambda>m. unset_required m = []) (value_messages v)"
  have "list_all2 (\<lambda>a b. ?L a = ?L b) xs ys"
    using same_list by (rule list_all2_mono) simp
  then have "(\<forall>a \<in> set xs. ?L a) = (\<forall>b \<in> set ys. ?L b)" by (rule list_all2_Ball_eq)
  then show ?case by (simp add: list_all_iff)
next
  case (same_map xs zs ys)
  let ?L = "\<lambda>e :: Scalar \<times> Value. list_all (\<lambda>m. unset_required m = []) (value_messages (snd e))"
  have "list_all2 (\<lambda>a b. ?L a = ?L b) xs zs"
    using same_map(1) by (rule list_all2_mono) simp
  then have "(\<forall>a \<in> set xs. ?L a) = (\<forall>b \<in> set zs. ?L b)" by (rule list_all2_Ball_eq)
  moreover have "set zs = set ys" using same_map(2) by (rule mset_eq_setD)
  ultimately show ?case by (simp add: list_all_iff)
next
  case (same_fields es zs es' d)
  let ?L = "\<lambda>e :: FieldDescriptor \<times> Value. list_all (\<lambda>m. unset_required m = []) (value_messages (snd e))"
  have "list_all2 (\<lambda>a b. fst a = fst b \<and> same_value (snd a) (snd b)) es zs"
    using same_fields(1) by (rule list_all2_mono) simp
  then have "same_message (Message d es) (Message d es')"
    using same_fields(2) by (rule same_value_same_message.same_fields)
  then have u: "unset_required (Message d es) = unset_required (Message d es')"
    by (rule unset_required_same)
  have "list_all2 (\<lambda>a b. ?L a = ?L b) es zs"
    using same_fields(1) by (rule list_all2_mono) simp
  then have "(\<forall>a \<in> set es. ?L a) = (\<forall>b \<in> set zs. ?L b)" by (rule list_all2_Ball_eq)
  moreover have "set zs = set es'" using same_fields(2) by (rule mset_eq_setD)
  ultimately show ?case using u by (simp only: list_all_message_graph)
qed

lemma IsInitialized_same: "same_message m m' \<Longrightarrow> IsInitialized m = IsInitialized m'"
  by (simp add: IsInitialized_def same_initialized(2))

text \<open>
  Claim C2. Two messages with the same logical content, stored in different orders (the
  entries of their maps, their populated and extension fields), are encoded to the same
  result under the same configuration, bytes and error alike.
\<close>

theorem encoding_deterministic:
  assumes "hook_respects x" and "wf_message m" and "same_message m m'"
  shows "MarshalOptions_Marshal x opts m = MarshalOptions_Marshal x opts m'"
proof -
  have "marshalMessage x opts m enc = marshalMessage x opts m' enc" for enc
    using assms by (rule marshal_same(1))
  then have a: "marshalMessage x opts m = marshalMessage x opts m'" by (rule ext)
  have b: "IsInitialized m = IsInitialized m'"
    using assms(3) by (rule IsInitialized_same)
  show ?thesis unfolding MarshalOptions_Marshal_def a b by (rule refl)
qed

lemma ex_stored_same: "same_message ex_stored ex_stored'"
proof -
  have i: "same_value
      (VMap [(SInt32 2, VScalar (SString ''b'')), (SInt32 1, VScalar (SString ''a''))])
      (VMap [(SInt32 1, VScalar (SString ''a'')), (SInt32 2, VScalar (SString ''b''))])"
    by (rule same_map [where zs = "[(SInt32 2, VScalar (SString ''b'')), (SInt32 1, VScalar (SString ''a''))]"])
      (simp_all add: same_scalar)
  show ?thesis
    unfolding ex_stored_def ex_stored'_def
    by (rule same_fields [where zs = "[(ex_map_field Sint32Kind,
           VMap [(SInt32 1, VScalar (SString ''a'')), (SInt32 2, VScalar (SString ''b''))]),
        (ex_extension ''pkg.b'', VScalar (SInt32 7)),
        (ex_extension ''pkg.a'', VScalar (SInt32 8))]"])
      (simp_all add: i same_scalar)
qed

lemma ex_stored_wf: "wf_message ex_stored"
  by (simp add: ex_stored_def ex_map_field_def ex_extension_def ex_field_def extensionEntries_def
      fd_IsList_def key_has_kind_def)

lemma ex_hook: "hook_respects ex_externals"
  by (simp add: hook_respects_def ex_externals_def)

lemma ex_stored_sortMap:
  "sortMap sp Sint32Kind [(SInt32 2, VScalar (SString ''b'')), (SInt32 1, VScalar (SString ''a''))] =
   Inr [(SInt32 1, VScalar (SString ''a'')), (SInt32 2, VScalar (SString ''b''))]"
  by (simp add: sortMap_def mapEntry_less_def)

lemma ex_stored_output:
  "MarshalOptions_Marshal ex_externals ex_options ex_stored =
     Returns (Some [TStartObject, TName ''labels'', TStartObject, TName ''1'', TString ''a'',
                    TName ''2'', TString ''b'', TEndObject,
                    TName ''[pkg.a]'', TInt 8, TName ''[pkg.b]'', TInt 7, TEndObject]) None"
  by (simp add: ex_stored_def ex_map_field_def ex_defs eval_defs ex_stored_sortMap
      show_int_def digits.simps digit_char_def)

theorem encoding_deterministic_witness:
  "hook_respects ex_externals \<and> wf_message ex_stored \<and> same_message ex_stored ex_stored' \<and>
   ex_stored \<noteq> ex_stored' \<and>
   MarshalOptions_Marshal ex_externals ex_options ex_stored' =
     Returns (Some [TStartObject, TName ''labels'', TStartObject, TName ''1'', TString ''a'',
                    TName ''2'', TString ''b'', TEndObject,
                    TName ''[pkg.a]'', TInt 8, TName ''[pkg.b]'', TInt 7, TEndObject]) None"
proof -
  have "ex_stored \<noteq> ex_stored'" by (simp add: ex_stored_def ex_stored'_def ex_extension_def ex_map_field_def)
  then show ?thesis
    using ex_hook ex_stored_wf ex_stored_same ex_stored_output
      encoding_deterministic [OF ex_hook ex_stored_wf ex_stored_same, of ex_options]
    by simp
qed

section \<open>Extensions\<close>

lemma ex_extended_entries: "extensionEntries ex_extended = [(''pkg.ext2'', VScalar (SInt32 2), ex_extension ''pkg.ext2''), (''pkg.ext'', VScalar (SInt32 1), ex_extension ''pkg.ext'')]"
  by (simp add: ex_extended_def extensionEntries_def ex_extension_def ex_name_field_def ex_field_def)

lemma ex_sort_two: "sort_Slice (\<lambda>a b. Inr (fst a < fst b)) [(''pkg.ext2'', v2, d2), (''pkg.ext'', v1, d1)] = Inr [(''pkg.ext'', v1, d1), (''pkg.ext2'', v2, d2)]"
  by simp

lemma ex_extended_extensions: "marshalExtensions ex_externals ex_options ex_extended enc = Inr (enc\<lparr>out := out enc @ [TName ''[pkg.ext]'', TInt 1, TName ''[pkg.ext2]'', TInt 2]\<rparr>)"
  by (simp add: marshalExtensions.simps ex_extended_entries ex_sort_two marshalExtensionEntries.simps writer_defs emit_def ex_externals_def
     marshalValue.simps marshalSingular.simps ex_extension_def fd_IsList_def IsValid_def)

lemma ex_extended_known: "marshalKnownFields ex_externals ex_options ex_extended [ex_name_field] enc =
    Inr (enc\<lparr>out := out enc @ [TName ''name'', TString ''n'']\<rparr>)"
  by (simp add: marshalKnownFields.simps ex_extended_def Has_def Get_def ex_name_field_def ex_field_def
      ex_extension_def ex_externals_def ex_options_def writer_defs emit_def marshalValue.simps
      marshalSingular.simps fd_IsList_def IsValid_def)

lemma ex_extended_initialized: "IsInitialized ex_extended = None"
  by (simp add: IsInitialized_def ex_extended_def unset_required_def ex_name_field_def ex_field_def)

text \<open>
  Claim C5 says that the extensions are sorted by their bracket-wrapped names. They are
  sorted by the names before the brackets are added, and the two orders differ:
  \<open>[pkg.ext]\<close> is written before \<open>[pkg.ext2]\<close>, although \<open>[pkg.ext2]\<close> is the smaller
  string (\<open>2\<close> sorts before \<open>]\<close>).
\<close>

theorem extension_bracket_order_counterexample:
  "MarshalOptions_Marshal ex_externals ex_options ex_extended =
     Returns (Some [TStartObject, TName ''name'', TString ''n'',
                    TName ''[pkg.ext]'', TInt 1, TName ''[pkg.ext2]'', TInt 2, TEndObject]) None \<and>
   ''[pkg.ext2]'' < ''[pkg.ext]''"
proof -
  have d: "Descriptor ex_extended = MessageDescriptor ''M'' ''pkg.M'' False [ex_name_field]"
    by (simp add: ex_extended_def)
  have "marshalMessage ex_externals ex_options ex_extended ex_encoder =
      Inr \<lparr>indent = [], out = [TStartObject, TName ''name'', TString ''n'',
                    TName ''[pkg.ext]'', TInt 1, TName ''[pkg.ext2]'', TInt 2, TEndObject]\<rparr>"
    by (simp add: marshalMessage.simps marshalFields.simps d ex_extended_extensions ex_extended_known StartObject_def EndObject_def
        emit_def ex_encoder_def)
      (simp add: ex_externals_def)
  then show ?thesis
    by (simp add: MarshalOptions_Marshal_def NewEncoder_def ex_extended_initialized Bytes_def ex_options_def ex_encoder_def)
qed

lemma extends_refl: "extends enc enc"
  unfolding extends_def by (rule exI [of _ "[]"]) simp

lemma extends_trans: "extends a b \<Longrightarrow> extends b c \<Longrightarrow> extends a c"
  by (auto simp: extends_def)

lemma extends_emit: "extends enc (emit t enc)"
  by (auto simp: extends_def emit_def)

lemma extends_emit_trans: "extends a b \<Longrightarrow> extends a (emit t b)"
  using extends_emit extends_trans by blast

lemma extends_checked:
  "checked (WriteName acc s enc) = Inr enc1 \<Longrightarrow> extends enc enc1"
  "checked (WriteString acc s enc) = Inr enc1 \<Longrightarrow> extends enc enc1"
  by (auto simp: checked_def WriteName_def WriteString_def extends_emit split: if_splits)

lemma extends_WriteString: "extends enc (fst (WriteString acc s enc))"
  by (simp add: WriteString_def extends_emit)

lemma bind_InrE:
  assumes "(case r of Inl f \<Rightarrow> Inl f | Inr e \<Rightarrow> g e) = Inr y"
  obtains e where "r = Inr e" and "g e = Inr y"
  using assms by (cases r) auto

lemma marshal_extends:
  shows "hook_appends x \<Longrightarrow> marshalMessage x opts m enc = Inr enc' \<Longrightarrow> extends enc enc'"
    and "hook_appends x \<Longrightarrow> marshalFields x opts m enc = Inr enc' \<Longrightarrow> extends enc enc'"
    and "hook_appends x \<Longrightarrow> marshalKnownFields x opts m fds enc = Inr enc' \<Longrightarrow> extends enc enc'"
    and "hook_appends x \<Longrightarrow> marshalValue x opts val fd enc = Inr enc' \<Longrightarrow> extends enc enc'"
    and "hook_appends x \<Longrightarrow> marshalSingular x opts val fd enc = Inr enc' \<Longrightarrow> extends enc enc'"
    and "hook_appends x \<Longrightarrow> marshalList x opts list fd enc = Inr enc' \<Longrightarrow> extends enc enc'"
    and "hook_appends x \<Longrightarrow> marshalListItems x opts list fd enc = Inr enc' \<Longrightarrow> extends enc enc'"
    and "hook_appends x \<Longrightarrow> marshalMap x opts mmap fd enc = Inr enc' \<Longrightarrow> extends enc enc'"
    and "hook_appends x \<Longrightarrow> marshalMapEntries x opts entries fd enc = Inr enc' \<Longrightarrow> extends enc enc'"
    and "hook_appends x \<Longrightarrow> marshalExtensions x opts m enc = Inr enc' \<Longrightarrow> extends enc enc'"
    and "hook_appends x \<Longrightarrow> marshalExtensionEntries x opts es enc = Inr enc' \<Longrightarrow> extends enc enc'"
proof (induction x opts m enc and x opts m enc and x opts m fds enc and x opts val fd enc
    and x opts val fd enc and x opts list fd enc and x opts list fd enc and x opts mmap fd enc
    and x opts entries fd enc and x opts m enc and x opts es enc
    arbitrary: enc' and enc' and enc' and enc' and enc' and enc' and enc' and enc' and enc'
      and enc' and enc'
    rule: marshalMessage_marshalFields_marshalKnownFields_marshalValue_marshalSingular_marshalList_marshalListItems_marshalMap_marshalMapEntries_marshalExtensions_marshalExtensionEntries.induct)
  case (1 x opts m enc)
  show ?case
  proof (cases "isCustomType x (md_FullName (Descriptor m))")
    case True
    then show ?thesis using 1(2,3) by (simp add: marshalMessage.simps hook_appends_def)
  next
    case False
    then obtain e1 where e: "marshalFields x opts m (StartObject enc) = Inr e1" "enc' = EndObject e1"
      using 1(3) by (auto simp: marshalMessage.simps elim: bind_InrE)
    have "extends (StartObject enc) e1" using 1(1) [OF False 1(2) e(1)] .
    then show ?thesis
      using e(2) extends_emit [of enc TStartObject]
      by (auto simp: StartObject_def EndObject_def intro: extends_trans extends_emit_trans)
  qed
next
  case (2 x opts m enc)
  then show ?case
    by (auto simp: marshalFields.simps split: if_splits elim!: bind_InrE intro: extends_trans)
next
  case (3 x opts m enc)
  then show ?case by (simp add: extends_refl)
next
  case (4 x opts m fd fds enc)
  show ?case
  proof (cases "field_skipped opts m fd")
    case True
    then show ?thesis
      using 4(1) [of enc'] 4(4,5) by (simp add: marshalKnownFields_Cons field_skipped_def)
  next
    case False
    then obtain name enc1 enc2 where s: "field_name opts fd = Inr name"
        "checked (WriteName (accepts x) name enc) = Inr enc1"
        "marshalValue x opts (field_value m fd) fd enc1 = Inr enc2"
        "marshalKnownFields x opts m fds enc2 = Inr enc'"
      using 4(5) by (auto simp: marshalKnownFields_Cons elim!: bind_InrE)
    have ns: "\<not> (\<not> Has m fd \<and> (\<not> EmitUnpopulated opts \<or> fd_ContainingOneof fd \<noteq> None))"
      using False by (simp add: field_skipped_def)
    have "extends enc enc1" using s(2) by (rule extends_checked)
    moreover have "extends enc1 enc2"
      using 4(2) [OF ns s(1) [unfolded field_name_def] s(2) 4(4) s(3) [unfolded field_value_def]] .
    moreover have "extends enc2 enc'"
      using 4(3) [OF ns s(1) [unfolded field_name_def] s(2) s(3) [unfolded field_value_def] 4(4) s(4)] .
    ultimately show ?thesis by (blast intro: extends_trans)
  qed
next
  case (5 x opts val fd enc)
  then show ?case
    by (auto simp: marshalValue.simps split: if_splits option.splits)
next
  case (6 x opts val fd enc)
  show ?case
  proof (cases "IsValid val")
    case False
    then show ?thesis using 6(4) by (auto simp: marshalSingular.simps WriteNull_def extends_emit)
  next
    case True
    show ?thesis
    proof (cases "fd_Kind fd = MessageKind \<or> fd_Kind fd = GroupKind")
      case True
      then show ?thesis
        using 6 \<open>IsValid val\<close> by (auto simp: marshalSingular.simps split: option.splits)
    next
      case False
      then show ?thesis
        using 6(4) \<open>IsValid val\<close>
        by (cases "fd_Kind fd")
          (auto simp: marshalSingular.simps WriteNull_def WriteBool_def WriteInt_def WriteUint_def
            WriteFloat_def extends_WriteString extends_emit
            split: option.splits if_splits dest: extends_checked)
    qed
  qed
next
  case (7 x opts list fd enc)
  then obtain e1 where e: "marshalListItems x opts list fd (StartArray enc) = Inr e1" "enc' = EndArray e1"
    by (auto simp: marshalList.simps elim: bind_InrE)
  have "extends (StartArray enc) e1" using 7(1) [OF 7(2) e(1)] .
  then show ?case
    using e(2) extends_emit [of enc TStartArray]
    by (auto simp: StartArray_def EndArray_def intro: extends_trans extends_emit_trans)
next
  case (8 x opts fd enc)
  then show ?case by (simp add: extends_refl)
next
  case (9 x opts item items fd enc)
  then show ?case
    by (auto elim!: bind_InrE intro: extends_trans)
next
  case (10 x opts mmap fd enc)
  then obtain kd entries e1 where e: "fd_MapKey fd = Some kd"
      "sortMap (Sprint x) (fd_Kind kd) mmap = Inr entries"
      "marshalMapEntries x opts entries fd (StartObject enc) = Inr e1" "enc' = EndObject e1"
    by (auto simp: marshalMap.simps split: option.splits elim!: bind_InrE)
  have "extends (StartObject enc) e1" using 10(1) [OF e(1,2) 10(2) e(3)] .
  then show ?case
    using e(4) extends_emit [of enc TStartObject]
    by (auto simp: StartObject_def EndObject_def intro: extends_trans extends_emit_trans)
next
  case (11 x opts fd enc)
  then show ?case by (simp add: extends_refl)
next
  case (12 x opts entry entries fd enc)
  from 12(4) obtain enc1 enc2 where s:
      "checked (WriteName (accepts x) (val_String (Sprint x) (VScalar (fst entry))) enc) = Inr enc1"
      "(case fd_MapValue fd of
          None \<Rightarrow> if IsValid (snd entry) then Inl Panic else Inr (WriteNull enc1)
        | Some vd \<Rightarrow> marshalSingular x opts (snd entry) vd enc1) = Inr enc2"
      "marshalMapEntries x opts entries fd enc2 = Inr enc'"
    by (auto simp: marshalMapEntries.simps elim!: bind_InrE)
  have "extends enc enc1" using s(1) by (rule extends_checked)
  moreover have "extends enc1 enc2"
  proof (cases "fd_MapValue fd")
    case None
    then show ?thesis using s(2) by (auto simp: WriteNull_def extends_emit split: if_splits)
  next
    case (Some vd)
    then show ?thesis using 12(1) [OF s(1) Some 12(3)] s(2) by simp
  qed
  moreover have "extends enc2 enc'" using 12(2) [OF s(1,2) 12(3) s(3)] .
  ultimately show ?case by (blast intro: extends_trans)
next
  case (13 x opts m enc)
  then show ?case
    by (auto simp: marshalExtensions.simps elim!: bind_InrE)
next
  case (14 x opts enc)
  then show ?case by (simp add: extends_refl)
next
  case (15 x opts entry entries enc)
  from 15(4) obtain enc1 enc2 where s:
      "checked (WriteName (accepts x) (''['' @ fst entry @ '']'') enc) = Inr enc1"
      "marshalValue x opts (fst (snd entry)) (snd (snd entry)) enc1 = Inr enc2"
      "marshalExtensionEntries x opts entries enc2 = Inr enc'"
    by (auto simp: marshalExtensionEntries.simps elim!: bind_InrE)
  have "extends enc enc1" using s(1) by (rule extends_checked)
  moreover have "extends enc1 enc2" using 15(1) [OF s(1) 15(3) s(2)] .
  moreover have "extends enc2 enc'" using 15(2) [OF s(1,2) 15(3) s(3)] .
  ultimately show ?case by (blast intro: extends_trans)
qed

text \<open>
  Claim C5, amended. The populated extension fields are marshaled after all declared
  fields (their tokens follow the tokens of the declared fields), in ascending
  lexicographic order of their fully qualified names (the string inside the brackets,
  not the bracket-wrapped one), each under the name \<open>[name]\<close>; for a legacy message-set
  extension the name is the parent of the field's full name.
\<close>

theorem extensions_sorted:
  "\<exists>entries.
     mset entries = mset (extensionEntries m) \<and>
     sorted (map fst entries) \<and>
     marshalExtensions x opts m enc = marshalExtensionEntries x opts entries enc \<and>
     (\<forall>e es enc0.
        marshalExtensionEntries x opts (e # es) enc0 =
          (case checked (WriteName (accepts x) (''['' @ fst e @ '']'') enc0) of
             Inl f \<Rightarrow> Inl f
           | Inr enc1 \<Rightarrow>
               (case marshalValue x opts (fst (snd e)) (snd (snd e)) enc1 of
                  Inl f \<Rightarrow> Inl f
                | Inr enc2 \<Rightarrow> marshalExtensionEntries x opts es enc2))) \<and>
     extensionEntries m =
       map (\<lambda>e. (if fd_IsMessageSetExtension (fst e) then Parent (fd_FullName (fst e))
                  else fd_FullName (fst e), snd e, fst e))
         (filter (\<lambda>e. fd_IsExtension (fst e)) (Range m)) \<and>
     marshalFields x opts m enc =
       (if \<not> ProtoLegacy x \<and> md_IsMessageSet (Descriptor m)
        then Inl (Err (errors_New ''no support for proto1 MessageSets''))
        else case marshalKnownFields x opts m (md_Fields (Descriptor m)) enc of
               Inl f \<Rightarrow> Inl f
             | Inr enc1 \<Rightarrow> marshalExtensions x opts m enc1) \<and>
     (\<forall>enc1 enc'.
        hook_appends x \<and> marshalKnownFields x opts m (md_Fields (Descriptor m)) enc = Inr enc1 \<and>
        marshalExtensions x opts m enc1 = Inr enc' \<longrightarrow>
          (\<exists>ts. out enc' = out enc1 @ ts))"
proof -
  let ?entries = "sort_key fst (extensionEntries m)"
  have 1: "mset ?entries = mset (extensionEntries m)" by simp
  have 2: "sorted (map fst ?entries)" by simp
  have 3: "marshalExtensions x opts m enc = marshalExtensionEntries x opts ?entries enc"
    by (simp add: marshalExtensions.simps sort_extensions)
  have 4: "\<forall>e es enc0.
        marshalExtensionEntries x opts (e # es) enc0 =
          (case checked (WriteName (accepts x) (''['' @ fst e @ '']'') enc0) of
             Inl f \<Rightarrow> Inl f
           | Inr enc1 \<Rightarrow>
               (case marshalValue x opts (fst (snd e)) (snd (snd e)) enc1 of
                  Inl f \<Rightarrow> Inl f
                | Inr enc2 \<Rightarrow> marshalExtensionEntries x opts es enc2))"
    by (simp add: marshalExtensionEntries.simps)
  have 5: "extensionEntries m =
       map (\<lambda>e. (if fd_IsMessageSetExtension (fst e) then Parent (fd_FullName (fst e))
                  else fd_FullName (fst e), snd e, fst e))
         (filter (\<lambda>e. fd_IsExtension (fst e)) (Range m))"
    by (simp add: extensionEntries_def case_prod_unfold)
  have 6: "marshalFields x opts m enc =
       (if \<not> ProtoLegacy x \<and> md_IsMessageSet (Descriptor m)
        then Inl (Err (errors_New ''no support for proto1 MessageSets''))
        else case marshalKnownFields x opts m (md_Fields (Descriptor m)) enc of
               Inl f \<Rightarrow> Inl f
             | Inr enc1 \<Rightarrow> marshalExtensions x opts m enc1)"
    by (rule marshalFields.simps)
  have 7: "\<forall>enc1 enc'.
        hook_appends x \<and> marshalKnownFields x opts m (md_Fields (Descriptor m)) enc = Inr enc1 \<and>
        marshalExtensions x opts m enc1 = Inr enc' \<longrightarrow>
          (\<exists>ts. out enc' = out enc1 @ ts)"
  proof (intro allI impI)
    fix enc1 enc'
    assume "hook_appends x \<and> marshalKnownFields x opts m (md_Fields (Descriptor m)) enc = Inr enc1 \<and>
        marshalExtensions x opts m enc1 = Inr enc'"
    then have "extends enc1 enc'" using marshal_extends(10) by blast
    then show "\<exists>ts. out enc' = out enc1 @ ts" by (auto simp: extends_def)
  qed
  show ?thesis
    by (rule exI [of _ ?entries]) (intro conjI 1 2 3 4 5 6 7)
qed

lemma ex_Parent:
  "Parent ''pkg.Zed.message_set_extension'' = ''pkg.Zed''"
  "Parent ''pkg.Alpha.message_set_extension'' = ''pkg.Alpha''"
  by (simp_all add: Parent_def)

lemma ex_set_entries:
  "extensionEntries ex_set_message =
     [(''pkg.Zed'', VMessage (Message (MessageDescriptor ''Item'' ''pkg.Zed'' False []) []),
       ex_set_extension ''pkg.Zed''),
      (''pkg.Alpha'', VMessage (Message (MessageDescriptor ''Item'' ''pkg.Alpha'' False []) []),
       ex_set_extension ''pkg.Alpha'')]"
  by (simp add: ex_set_message_def ex_set_extension_def extensionEntries_def ex_Parent)

lemma ex_sort_set:
  "sort_Slice (\<lambda>a b. Inr (fst a < fst b)) [(''pkg.Zed'', v2, d2), (''pkg.Alpha'', v1, d1)] =
     Inr [(''pkg.Alpha'', v1, d1), (''pkg.Zed'', v2, d2)]"
  by simp

lemma ex_empty_item:
  "marshalMessage (ex_externals\<lparr>ProtoLegacy := True\<rparr>) ex_options
     (Message (MessageDescriptor ''Item'' parent False []) []) enc =
   Inr (enc\<lparr>out := out enc @ [TStartObject, TEndObject]\<rparr>)"
  by (simp add: marshalMessage.simps marshalFields.simps marshalExtensions.simps extensionEntries_def
      ex_externals_def StartObject_def EndObject_def emit_def)

lemma ex_hook_appends: "hook_appends ex_externals"
  by (simp add: hook_appends_def ex_externals_def extends_refl)

theorem extensions_sorted_witness:
  "hook_appends ex_externals \<and>
   marshalKnownFields ex_externals ex_options ex_extended (md_Fields (Descriptor ex_extended))
     ex_encoder =
     Inr \<lparr>indent = [], out = [TName ''name'', TString ''n'']\<rparr> \<and>
   marshalExtensions ex_externals ex_options ex_extended
     \<lparr>indent = [], out = [TName ''name'', TString ''n'']\<rparr> =
     Inr \<lparr>indent = [],
          out = [TName ''name'', TString ''n'', TName ''[pkg.ext]'', TInt 1,
                 TName ''[pkg.ext2]'', TInt 2]\<rparr> \<and>
   map fst (extensionEntries ex_set_message) = [''pkg.Zed'', ''pkg.Alpha''] \<and>
   (\<exists>entries. mset entries = mset (extensionEntries ex_set_message) \<and> sorted (map fst entries) \<and>
      marshalExtensions (ex_externals\<lparr>ProtoLegacy := True\<rparr>) ex_options ex_set_message ex_encoder =
      marshalExtensionEntries (ex_externals\<lparr>ProtoLegacy := True\<rparr>) ex_options entries ex_encoder) \<and>
   marshalExtensions (ex_externals\<lparr>ProtoLegacy := True\<rparr>) ex_options ex_set_message ex_encoder =
     Inr \<lparr>indent = [],
          out = [TName ''[pkg.Alpha]'', TStartObject, TEndObject,
                 TName ''[pkg.Zed]'', TStartObject, TEndObject]\<rparr>"
proof -
  have a: "map fst (extensionEntries ex_set_message) = [''pkg.Zed'', ''pkg.Alpha'']"
    by (simp add: ex_set_entries)
  have b: "marshalExtensions (ex_externals\<lparr>ProtoLegacy := True\<rparr>) ex_options ex_set_message ex_encoder =
     Inr \<lparr>indent = [],
          out = [TName ''[pkg.Alpha]'', TStartObject, TEndObject,
                 TName ''[pkg.Zed]'', TStartObject, TEndObject]\<rparr>"
    by (simp add: marshalExtensions.simps ex_set_entries ex_sort_set marshalExtensionEntries.simps
        writer_defs emit_def marshalValue.simps marshalSingular.simps ex_set_extension_def
        fd_IsList_def IsValid_def ex_empty_item ex_encoder_def)
      (simp add: ex_externals_def)
  have c: "\<exists>entries. mset entries = mset (extensionEntries ex_set_message) \<and> sorted (map fst entries) \<and>
      marshalExtensions (ex_externals\<lparr>ProtoLegacy := True\<rparr>) ex_options ex_set_message ex_encoder =
      marshalExtensionEntries (ex_externals\<lparr>ProtoLegacy := True\<rparr>) ex_options entries ex_encoder"
    using extensions_sorted [of ex_set_message "ex_externals\<lparr>ProtoLegacy := True\<rparr>" ex_options ex_encoder]
    by (elim exE conjE) (intro exI conjI, assumption+)
  have d: "marshalKnownFields ex_externals ex_options ex_extended (md_Fields (Descriptor ex_extended))
     ex_encoder = Inr \<lparr>indent = [], out = [TName ''name'', TString ''n'']\<rparr>"
    using ex_extended_known [of ex_encoder]
    by (simp add: ex_encoder_def) (simp add: ex_extended_def)
  have e: "marshalExtensions ex_externals ex_options ex_extended
     \<lparr>indent = [], out = [TName ''name'', TString ''n'']\<rparr> =
     Inr \<lparr>indent = [],
          out = [TName ''name'', TString ''n'', TName ''[pkg.ext]'', TInt 1,
                 TName ''[pkg.ext2]'', TInt 2]\<rparr>"
    by (simp add: ex_extended_extensions)
  show ?thesis by (intro conjI ex_hook_appends d e a b c)
qed

section \<open>Errors of the body\<close>



















end
